theory Spec2Isabelle
  imports Complex_Main
begin

section \<open>Strings of the text utilities (\<^verbatim>\<open>src/utils/text.ts\<close>)\<close>

text \<open>
  A JavaScript string is modelled as a HOL \<^typ>\<open>string\<close>: a list of characters with
  codes 0 to 255, read as the Unicode code points U+0000 to U+00FF (Basic Latin and
  Latin-1 Supplement).  Inside that range the Unicode classes used by the regular
  expressions of the source are written out below.  Code points above U+00FF are
  outside the model.  A JavaScript number is modelled as a real number: rounding of
  IEEE doubles is not modelled.
\<close>

definition code :: "char \<Rightarrow> nat" where
  "code c = of_char c"

definition isL :: "char \<Rightarrow> bool" where
  \<comment> \<open>\<^verbatim>\<open>\p{L}\<close>: A-Z, a-z, U+00AA, U+00B5, U+00BA, U+00C0-00D6, U+00D8-00F6, U+00F8-00FF\<close>
  "isL c = (let n = code c in
     (65 \<le> n \<and> n \<le> 90) \<or> (97 \<le> n \<and> n \<le> 122) \<or> n = 170 \<or> n = 181 \<or> n = 186 \<or>
     (192 \<le> n \<and> n \<le> 214) \<or> (216 \<le> n \<and> n \<le> 246) \<or> (248 \<le> n \<and> n \<le> 255))"

definition isN :: "char \<Rightarrow> bool" where
  \<comment> \<open>\<^verbatim>\<open>\p{N}\<close>: 0-9, U+00B2, U+00B3, U+00B9, U+00BC-00BE\<close>
  "isN c = (let n = code c in
     (48 \<le> n \<and> n \<le> 57) \<or> n = 178 \<or> n = 179 \<or> n = 185 \<or> (188 \<le> n \<and> n \<le> 190))"

definition isDigit :: "char \<Rightarrow> bool" where
  \<comment> \<open>\<^verbatim>\<open>\d\<close>: 0-9\<close>
  "isDigit c = (let n = code c in 48 \<le> n \<and> n \<le> 57)"

definition isSpace :: "char \<Rightarrow> bool" where
  \<comment> \<open>\<^verbatim>\<open>\s\<close>, also what \<^verbatim>\<open>trim\<close> strips: TAB, LF, VT, FF, CR, SPACE, U+00A0\<close>
  "isSpace c = (let n = code c in (9 \<le> n \<and> n \<le> 13) \<or> n = 32 \<or> n = 160)"

definition lowerChar :: "char \<Rightarrow> char" where
  "lowerChar c = (let n = code c in
     if (65 \<le> n \<and> n \<le> 90) \<or> (192 \<le> n \<and> n \<le> 214) \<or> (216 \<le> n \<and> n \<le> 222)
     then char_of (n + 32) else c)"

definition toLowerCase :: "string \<Rightarrow> string" where
  "toLowerCase s = map lowerChar s"

definition upperChar :: "char \<Rightarrow> char" where
  \<comment> \<open>U+00B5, U+00DF and U+00FF have upper-case forms outside Latin-1; the source
      upper-cases only a match of \<^verbatim>\<open>/W\d+/i\<close>, where they cannot occur.\<close>
  "upperChar c = (let n = code c in
     if (97 \<le> n \<and> n \<le> 122) \<or> (224 \<le> n \<and> n \<le> 246) \<or> (248 \<le> n \<and> n \<le> 254)
     then char_of (n - 32) else c)"

definition toUpperCase :: "string \<Rightarrow> string" where
  "toUpperCase s = map upperChar s"

definition trim :: "string \<Rightarrow> string" where
  "trim s = rev (dropWhile isSpace (rev (dropWhile isSpace s)))"

fun startsWith :: "string \<Rightarrow> string \<Rightarrow> bool" where
  "startsWith s [] = True"
| "startsWith [] (p # ps) = False"
| "startsWith (c # cs) (p # ps) = (c = p \<and> startsWith cs ps)"

fun includesStr :: "string \<Rightarrow> string \<Rightarrow> bool" where
  \<comment> \<open>\<^verbatim>\<open>s.includes(sub)\<close>\<close>
  "includesStr [] sub = (sub = [])"
| "includesStr (c # cs) sub = (startsWith (c # cs) sub \<or> includesStr cs sub)"

fun join :: "string \<Rightarrow> string list \<Rightarrow> string" where
  \<comment> \<open>\<^verbatim>\<open>parts.join(sep)\<close>\<close>
  "join sep [] = []"
| "join sep [x] = x"
| "join sep (x # y # ys) = x @ sep @ join sep (y # ys)"

fun setOf :: "'a list \<Rightarrow> 'a list" where
  \<comment> \<open>\<^verbatim>\<open>[...new Set(xs)]\<close>: the elements in the order of their first occurrence\<close>
  "setOf [] = []"
| "setOf (x # xs) = x # setOf (filter (\<lambda>y. y \<noteq> x) xs)"

subsection \<open>tokenize, uniqueTokens, computeRelevanceScore\<close>

definition tokStart :: "char \<Rightarrow> bool" where
  "tokStart c = (isL c \<or> isN c)"

definition tokCont :: "char \<Rightarrow> bool" where
  "tokCont c = (isL c \<or> isN c \<or> c = CHR ''_'' \<or> c = CHR ''-'')"

function matchTokens :: "string \<Rightarrow> string list" where
  \<comment> \<open>all matches of \<^verbatim>\<open>/[\p{L}\p{N}][\p{L}\p{N}_-]*/gu\<close>, left to right\<close>
  "matchTokens [] = []"
| "matchTokens (c # cs) =
     (if tokStart c then (c # takeWhile tokCont cs) # matchTokens (dropWhile tokCont cs)
      else matchTokens cs)"
  by pat_completeness auto
termination
  by (relation "measure length") (auto simp: length_dropWhile_le less_Suc_eq_le)

definition tokenize :: "string \<Rightarrow> string list" where
  "tokenize input = (if input = [] then [] else matchTokens (toLowerCase input))"

definition uniqueTokens :: "string \<Rightarrow> string list" where
  "uniqueTokens input = setOf (tokenize input)"

datatype reason =
    EmptyQueryTokens
  | QueryCoverage real
  | TitleCoverage real
  | ExactQueryPhraseInTitle
  | AbstractAvailable

record relevance =
  score :: real
  reasons :: "reason list"

fun countOverlap :: "string list \<Rightarrow> string list \<Rightarrow> string list \<Rightarrow> nat \<times> nat \<Rightarrow> nat \<times> nat" where
  \<comment> \<open>the loop over \<^verbatim>\<open>qTokens\<close>; the pair is \<^verbatim>\<open>(overlap, titleOverlap)\<close>\<close>
  "countOverlap bodyTokens titleTokens [] acc = acc"
| "countOverlap bodyTokens titleTokens (token # rest) (overlap, titleOverlap) =
     countOverlap bodyTokens titleTokens rest
       (if token \<in> set bodyTokens then overlap + 1 else overlap,
        if token \<in> set titleTokens then titleOverlap + 1 else titleOverlap)"

definition computeRelevanceScore :: "string \<Rightarrow> string \<Rightarrow> string \<Rightarrow> relevance" where
  "computeRelevanceScore query title abstract =
     (let qTokens = uniqueTokens query in
      if length qTokens = 0 then \<lparr>score = 0, reasons = [EmptyQueryTokens]\<rparr>
      else
        let titleTokens = setOf (tokenize title);
            bodyTokens = setOf (tokenize (title @ '' '' @ abstract));
            (overlap, titleOverlap) = countOverlap bodyTokens titleTokens qTokens (0, 0);
            queryCoverage = real overlap / real (length qTokens);
            titleCoverage = real titleOverlap / real (length qTokens);
            phraseBoost = (if includesStr (toLowerCase title) (toLowerCase query) then 0.15 else 0);
            abstractBoost = (if length abstract > 0 then 0.05 else 0);
            score = min 1 (0.55 * queryCoverage + 0.25 * titleCoverage + phraseBoost + abstractBoost)
        in \<lparr>score = score,
            reasons = [QueryCoverage queryCoverage, TitleCoverage titleCoverage]
              @ (if phraseBoost > 0 then [ExactQueryPhraseInTitle] else [])
              @ (if abstractBoost > 0 then [AbstractAvailable] else [])\<rparr>)"

text \<open>
  The wording of the specification, for comparison with the code: the coverage of a
  token set by another one, and the substring relation.
\<close>

definition spec_coverage :: "string set \<Rightarrow> string set \<Rightarrow> real" where
  "spec_coverage Q T = real (card (Q \<inter> T)) / real (card Q)"

definition spec_isSubstring :: "string \<Rightarrow> string \<Rightarrow> bool" where
  "spec_isSubstring sub s = (\<exists>before after. s = before @ sub @ after)"

subsection \<open>normalizeOpenAlexId\<close>

datatype error =
    Error string
  | RangeError string
  | ZodError string
  | OpenAlexClientError string
  | OpenWebUIClientError string
  | SystemError string

fun message :: "error \<Rightarrow> string" where
  \<comment> \<open>\<^verbatim>\<open>error instanceof Error ? error.message : String(error)\<close>; every value thrown
      here is an \<^verbatim>\<open>Error\<close> object\<close>
  "message (Error m) = m"
| "message (RangeError m) = m"
| "message (ZodError m) = m"
| "message (OpenAlexClientError m) = m"
| "message (OpenWebUIClientError m) = m"
| "message (SystemError m) = m"

fun matchWorkId :: "string \<Rightarrow> string option" where
  \<comment> \<open>\<^verbatim>\<open>raw.match(/W\d+/i)\<close>: the leftmost W or w that a digit follows, with all the
      digits after it; \<^verbatim>\<open>None\<close> is \<^verbatim>\<open>null\<close>\<close>
  "matchWorkId [] = None"
| "matchWorkId (c # cs) =
     (if (c = CHR ''W'' \<or> c = CHR ''w'') \<and> takeWhile isDigit cs \<noteq> []
      then Some (c # takeWhile isDigit cs) else matchWorkId cs)"

record normalizedId =
  canonical :: string
  short :: string

definition normalizeOpenAlexId :: "string \<Rightarrow> error + normalizedId" where
  "normalizeOpenAlexId raw =
     (case matchWorkId raw of
        None \<Rightarrow> Inl (Error (''Invalid OpenAlex id: '' @ raw))
      | Some m \<Rightarrow>
          (let short = toUpperCase m
           in Inr \<lparr>canonical = ''https://openalex.org/'' @ short, short = short\<rparr>))"

subsection \<open>rebuildAbstractFromInvertedIndex\<close>

text \<open>
  The inverted index is an object; it is modelled as the list of its entries in the
  order in which \<^verbatim>\<open>Object.entries\<close> and \<^verbatim>\<open>Object.values\<close> enumerate them, with
  integer positions.  \<^verbatim>\<open>None\<close> stands for \<^verbatim>\<open>null\<close> and \<^verbatim>\<open>undefined\<close>.
\<close>

type_synonym invertedIndex = "(string \<times> int list) list"

definition stepMax :: "int list \<Rightarrow> int \<Rightarrow> int" where
  \<comment> \<open>the inner loop over the positions of one word\<close>
  "stepMax positions m =
     fold (\<lambda>pos maxPosition. if pos > maxPosition then pos else maxPosition) positions m"

definition maxPositionOf :: "invertedIndex \<Rightarrow> int" where
  "maxPositionOf idx =
     fold (\<lambda>(word, positions) maxPosition. stepMax positions maxPosition) idx (- 1)"

definition setSlot :: "string list \<Rightarrow> int \<Rightarrow> string \<Rightarrow> string list" where
  \<comment> \<open>\<^verbatim>\<open>tokens[pos] = word\<close>.  A negative \<^verbatim>\<open>pos\<close> sets a property of the array object
      and no element.  A position is never beyond the array, whose size is the largest
      position plus one.\<close>
  "setSlot tokens pos word = (if 0 \<le> pos then tokens[nat pos := word] else tokens)"

definition fillTokens :: "invertedIndex \<Rightarrow> string list \<Rightarrow> string list" where
  "fillTokens idx tokens =
     fold (\<lambda>(word, positions) tokens. fold (\<lambda>pos tokens. setSlot tokens pos word) positions tokens)
       idx tokens"

definition newArray :: "int \<Rightarrow> error + string list" where
  \<comment> \<open>\<^verbatim>\<open>new Array(n).fill("")\<close> for an integer \<^verbatim>\<open>n\<close> that is not negative: the constructor
      throws a \<^verbatim>\<open>RangeError\<close> for a length above \<^verbatim>\<open>2^32 - 1\<close>\<close>
  "newArray n =
     (if n > 4294967295 then Inl (RangeError ''Invalid array length'')
      else Inr (replicate (nat n) ''''))"

definition slotsOf :: "invertedIndex \<Rightarrow> error + string list" where
  \<comment> \<open>\<^verbatim>\<open>new Array(maxPosition + 1).fill("")\<close>, then filled\<close>
  "slotsOf idx =
     (case newArray (maxPositionOf idx + 1) of
        Inl e \<Rightarrow> Inl e
      | Inr tokens \<Rightarrow> Inr (fillTokens idx tokens))"

definition isPunct :: "char \<Rightarrow> bool" where
  \<comment> \<open>\<^verbatim>\<open>[,.;:!?]\<close>\<close>
  "isPunct c = (c \<in> set '',.;:!?'')"

fun collapseBeforePunct :: "string \<Rightarrow> string" where
  \<comment> \<open>\<^verbatim>\<open>.replace(/\s+([,.;:!?])/g, "$1")\<close>: a white-space character is dropped when the
      run of white space it stands in ends at a punctuation mark\<close>
  "collapseBeforePunct [] = []"
| "collapseBeforePunct (c # cs) =
     (if isSpace c \<and> (case dropWhile isSpace cs of [] \<Rightarrow> False | p # rest \<Rightarrow> isPunct p)
      then collapseBeforePunct cs else c # collapseBeforePunct cs)"

definition rebuildAbstractFromInvertedIndex :: "invertedIndex option \<Rightarrow> error + string" where
  "rebuildAbstractFromInvertedIndex abstractInvertedIndex =
     (case abstractInvertedIndex of
        None \<Rightarrow> Inr ''''
      | Some idx \<Rightarrow>
          if maxPositionOf idx < 0 then Inr ''''
          else (case slotsOf idx of
                  Inl e \<Rightarrow> Inl e
                | Inr tokens \<Rightarrow>
                    Inr (trim (collapseBeforePunct
                      (join '' '' (filter (\<lambda>token. length (trim token) > 0) tokens))))))"

text \<open>
  The wording of the specification, for comparison: the work-ID pattern as "a letter
  followed by digits"; the pattern of the code, the letter W in either case followed by
  a digit; the word of an index at a position (the last entry that lists it), the slot
  array made of these words; and the reconstruction as "join the non-empty slots with single spaces, then remove white
  space before punctuation".
\<close>

fun spec_hasLetterThenDigit :: "string \<Rightarrow> bool" where
  "spec_hasLetterThenDigit (c # d # rest) = ((isL c \<and> isDigit d) \<or> spec_hasLetterThenDigit (d # rest))"
| "spec_hasLetterThenDigit s = False"

definition spec_hasWorkId :: "string \<Rightarrow> bool" where
  "spec_hasWorkId raw =
     (\<exists>before c d after. raw = before @ c # d # after \<and> (c = CHR ''W'' \<or> c = CHR ''w'') \<and> isDigit d)"

definition allPositions :: "invertedIndex \<Rightarrow> int set" where
  "allPositions idx = (\<Union>e \<in> set idx. set (snd e))"

definition spec_wordAt :: "invertedIndex \<Rightarrow> int \<Rightarrow> string" where
  "spec_wordAt idx i =
     (case filter (\<lambda>(word, positions). i \<in> set positions) idx of
        [] \<Rightarrow> ''''
      | e # es \<Rightarrow> fst (last (e # es)))"

definition spec_slots :: "invertedIndex \<Rightarrow> string list" where
  "spec_slots idx = map (\<lambda>i. spec_wordAt idx (int i)) [0 ..< nat (maxPositionOf idx + 1)]"

definition spec_rebuild :: "invertedIndex \<Rightarrow> string" where
  "spec_rebuild idx =
     collapseBeforePunct (join '' '' (filter (\<lambda>slot. slot \<noteq> '''') (spec_slots idx)))"

section \<open>The outside world\<close>

text \<open>
  The file system, the network and the two services are outside the program.  A
  \<^emph>\<open>world\<close> answers each request of the program; its answer may depend on all the
  requests made before (the trace), so a world can stand for any deterministic
  environment with its own state.  The program's state is the trace of its requests
  and the module-level candidate cache.  A thrown exception is a value \<^verbatim>\<open>Inl e\<close>, or
  \<^verbatim>\<open>Some e\<close> where nothing is returned on success.
\<close>

record candidate =
  openalexId :: string
  openalexShortId :: string
  title :: string
  publicationYear :: "int option"
  publicationDate :: "string option"
  doi :: "string option"
  authors :: "string list"
  citedByCount :: int
  isOa :: bool
  oaStatus :: string
  pdfUrl :: "string option"
  landingPageUrl :: "string option"
  abstractText :: string
  relevanceScore :: real
  relevanceReasons :: "reason list"

record response =
  status :: nat
  statusText :: string
  contentLengthHeader :: "nat option"
  contentTypeHeader :: "string option"
  body :: "error + string"

text \<open>
  \<^verbatim>\<open>contentLengthHeader\<close> is \<^verbatim>\<open>response.headers.get("content-length")\<close>: absent, or a
  sequence of digits (the HTTP parser of the platform refuses any other value), given
  here by its value; \<^verbatim>\<open>Number\<close> reads it exactly below \<^verbatim>\<open>2^53\<close> and rounds it above, where
  the digits in the text of the error message may differ.  \<^verbatim>\<open>body\<close> is what \<^verbatim>\<open>response.arrayBuffer()\<close> yields: the bytes, or
  an exception.
\<close>

datatype accessControl = AcUndefined | AcNull | AcObject "(string \<times> string) list"

record knowledge =
  kb_id :: string
  kb_name :: string
  kb_description :: string
  kb_access_control :: accessControl

datatype retrievalMode = Pdf | AbstractOnly

record uploadMetadata =
  meta_source :: string
  meta_openalex_id :: string
  meta_doi :: "string option"
  meta_title :: string
  meta_retrieval_mode :: retrievalMode
  meta_query :: string

datatype call =
    Mkdir string
  | GetWork string string
  | Fetch string
  | WriteFile string string
  | UploadFile string uploadMetadata
  | WaitForFileProcessed string nat
  | Unlink string
  | SearchKnowledgeBases string
  | CreateKnowledgeBase string string accessControl
  | AddFilesToKnowledgeBase string "string list"

record world =
  mkdir :: "call list \<Rightarrow> string \<Rightarrow> error option"
  getWork :: "call list \<Rightarrow> string \<Rightarrow> string \<Rightarrow> error + candidate"
  fetch :: "call list \<Rightarrow> string \<Rightarrow> error + response"
  writeFile :: "call list \<Rightarrow> string \<Rightarrow> string \<Rightarrow> error option"
  uploadFile :: "call list \<Rightarrow> string \<Rightarrow> uploadMetadata \<Rightarrow> error + string"
  waitForFileProcessed :: "call list \<Rightarrow> string \<Rightarrow> nat \<Rightarrow> error + string"
  unlink :: "call list \<Rightarrow> string \<Rightarrow> error option"
  searchKnowledgeBases :: "call list \<Rightarrow> string \<Rightarrow> error + knowledge list"
  postCreateKnowledge :: "call list \<Rightarrow> string \<Rightarrow> string \<Rightarrow> accessControl \<Rightarrow> error + knowledge"
  postBatchAdd :: "call list \<Rightarrow> string \<Rightarrow> string list \<Rightarrow> error option"

text \<open>
  The client methods \<^verbatim>\<open>getWork\<close>, \<^verbatim>\<open>uploadFile\<close>, \<^verbatim>\<open>waitForFileProcessed\<close> and
  \<^verbatim>\<open>searchKnowledgeBases\<close> consist of HTTP exchanges and, for the third, of waiting on
  the clock; the world answers each of them as a whole.  \<^verbatim>\<open>getWork\<close> is
  \<^verbatim>\<open>openAlexClient.getWork(canonical, query)\<close>; \<^verbatim>\<open>uploadFile\<close> yields the \<^verbatim>\<open>id\<close> of the
  upload; \<^verbatim>\<open>waitForFileProcessed\<close> yields the \<^verbatim>\<open>status\<close> of its result, here any string
  (the polling loop of the source returns "completed", "failed" or "timeout");
  \<^verbatim>\<open>searchKnowledgeBases\<close> yields \<^verbatim>\<open>result.items ?? []\<close>; \<^verbatim>\<open>postCreateKnowledge\<close> and
  \<^verbatim>\<open>postBatchAdd\<close> are the POST requests to \<^verbatim>\<open>/api/v1/knowledge/create\<close> and
  \<^verbatim>\<open>/api/v1/knowledge/{id}/files/batch/add\<close>.
\<close>

record platform =
  nfkdAscii :: "string \<Rightarrow> string"
  scratchDir :: string
  scratchPath :: "string \<Rightarrow> string"
  envBaseUrl :: "string option"
  envApiKey :: "string option"

text \<open>
  The platform holds what the run-time library supplies: \<^verbatim>\<open>nfkdAscii s\<close> is
  \<^verbatim>\<open>s.normalize("NFKD").replace(/[^\x00-\x7F]/g, "")\<close>, \<^verbatim>\<open>scratchDir\<close> is
  \<^verbatim>\<open>join(tmpdir(), "mcp-scholar-oa")\<close>, \<^verbatim>\<open>scratchPath name\<close> is
  \<^verbatim>\<open>join(tmpdir(), "mcp-scholar-oa", name)\<close>, and the last two are the environment
  variables \<^verbatim>\<open>OPENWEBUI_BASE_URL\<close> and \<^verbatim>\<open>OPENWEBUI_API_KEY\<close>.
\<close>

record state =
  trace :: "call list"
  candidateCache :: "string \<Rightarrow> candidate option"

definition emit :: "call \<Rightarrow> state \<Rightarrow> state" where
  "emit c s = s\<lparr>trace := trace s @ [c]\<rparr>"

definition doMkdir :: "world \<Rightarrow> string \<Rightarrow> state \<Rightarrow> error option \<times> state" where
  "doMkdir W path s = (mkdir W (trace s) path, emit (Mkdir path) s)"

definition doGetWork :: "world \<Rightarrow> string \<Rightarrow> string \<Rightarrow> state \<Rightarrow> (error + candidate) \<times> state" where
  "doGetWork W ident q s = (getWork W (trace s) ident q, emit (GetWork ident q) s)"

definition doFetch :: "world \<Rightarrow> string \<Rightarrow> state \<Rightarrow> (error + response) \<times> state" where
  "doFetch W url s = (fetch W (trace s) url, emit (Fetch url) s)"

definition doWriteFile :: "world \<Rightarrow> string \<Rightarrow> string \<Rightarrow> state \<Rightarrow> error option \<times> state" where
  "doWriteFile W path content s = (writeFile W (trace s) path content, emit (WriteFile path content) s)"

definition doUploadFile :: "world \<Rightarrow> string \<Rightarrow> uploadMetadata \<Rightarrow> state \<Rightarrow> (error + string) \<times> state" where
  "doUploadFile W path metadata s = (uploadFile W (trace s) path metadata, emit (UploadFile path metadata) s)"

definition doWaitForFileProcessed :: "world \<Rightarrow> string \<Rightarrow> nat \<Rightarrow> state \<Rightarrow> (error + string) \<times> state" where
  "doWaitForFileProcessed W fileId timeoutSeconds s =
     (waitForFileProcessed W (trace s) fileId timeoutSeconds,
      emit (WaitForFileProcessed fileId timeoutSeconds) s)"

definition doUnlink :: "world \<Rightarrow> string \<Rightarrow> state \<Rightarrow> error option \<times> state" where
  "doUnlink W path s = (unlink W (trace s) path, emit (Unlink path) s)"

section \<open>The PDF download (\<^verbatim>\<open>tryDownloadPdf\<close>, \<^verbatim>\<open>src/tools/scholar.ts\<close>)\<close>

function decimal :: "nat \<Rightarrow> string" where
  \<comment> \<open>\<^verbatim>\<open>String(n)\<close> for a natural number\<close>
  "decimal n = (if n < 10 then [char_of (48 + n)] else decimal (n div 10) @ [char_of (48 + n mod 10)])"
  by pat_completeness auto
termination
  by (relation "measure id") auto

declare decimal.simps [simp del]

definition showInt :: "int \<Rightarrow> string" where
  "showInt i = (if i < 0 then ''-'' @ decimal (nat (- i)) else decimal (nat i))"

definition ok :: "response \<Rightarrow> bool" where
  \<comment> \<open>\<^verbatim>\<open>response.ok\<close>: the status is in the range 200-299\<close>
  "ok r = (200 \<le> status r \<and> status r \<le> 299)"

definition asciiDecode :: "string \<Rightarrow> string" where
  \<comment> \<open>\<^verbatim>\<open>buffer.toString("ascii")\<close>: the highest bit of each byte is unset\<close>
  "asciiDecode bytes = map (\<lambda>b. char_of (code b mod 128)) bytes"

definition maxPdfBytes :: nat where
  "maxPdfBytes = 80 * 1024 * 1024"

definition pdfOfResponse :: "response \<Rightarrow> error + string" where
  \<comment> \<open>the body of \<^verbatim>\<open>tryDownloadPdf\<close> after \<^verbatim>\<open>fetch\<close> has returned\<close>
  "pdfOfResponse r =
     (if \<not> ok r then Inl (Error (''HTTP '' @ decimal (status r) @ '' '' @ statusText r))
      else
        let contentLength = (case contentLengthHeader r of None \<Rightarrow> 0 | Some n \<Rightarrow> n) in
        if contentLength > maxPdfBytes
        then Inl (Error (''PDF too large ('' @ decimal contentLength @ '' bytes)''))
        else
          (case body r of
             Inl e \<Rightarrow> Inl e
           | Inr raw \<Rightarrow>
               let contentType = toLowerCase (case contentTypeHeader r of None \<Rightarrow> '''' | Some h \<Rightarrow> h);
                   pdfSignature = asciiDecode (take 4 raw)
               in if \<not> includesStr contentType ''pdf'' \<and> pdfSignature \<noteq> ''%PDF''
                  then Inl (Error (''Downloaded content is not a PDF (content-type=''
                         @ (if contentType = '''' then ''unknown'' else contentType) @ '')''))
                  else Inr raw))"

definition tryDownloadPdf :: "world \<Rightarrow> string \<Rightarrow> state \<Rightarrow> (error + string) \<times> state" where
  "tryDownloadPdf W url s =
     (case doFetch W url s of
        (Inl e, s1) \<Rightarrow> (Inl e, s1)
      | (Inr r, s1) \<Rightarrow> (pdfOfResponse r, s1))"

section \<open>The knowledge-store client (\<^verbatim>\<open>src/utils/openwebui-client.ts\<close>)\<close>

record clientConfig =
  baseUrl :: string
  apiKey :: string

definition stripTrailingSlashes :: "string \<Rightarrow> string" where
  \<comment> \<open>\<^verbatim>\<open>.replace(/\/+$/, "")\<close>\<close>
  "stripTrailingSlashes s = rev (dropWhile (\<lambda>c. c = CHR ''/'') (rev s))"

definition orElse :: "'a option \<Rightarrow> 'a option \<Rightarrow> 'a option" where
  \<comment> \<open>\<^verbatim>\<open>a ?? b\<close>\<close>
  "orElse a b = (case a of Some x \<Rightarrow> Some x | None \<Rightarrow> b)"

definition newOpenWebUIClient :: "platform \<Rightarrow> string option \<Rightarrow> string option \<Rightarrow> error + clientConfig" where
  "newOpenWebUIClient P paramBaseUrl paramApiKey =
     (let baseUrl = stripTrailingSlashes
            (trim (case orElse paramBaseUrl (envBaseUrl P) of Some u \<Rightarrow> u | None \<Rightarrow> ''''));
          apiKey = trim (case orElse paramApiKey (envApiKey P) of Some k \<Rightarrow> k | None \<Rightarrow> '''')
      in if baseUrl = '''' then Inl (OpenWebUIClientError ''OPENWEBUI_BASE_URL is required'')
         else if apiKey = '''' then Inl (OpenWebUIClientError ''OPENWEBUI_API_KEY is required'')
         else Inr \<lparr>baseUrl = baseUrl, apiKey = apiKey\<rparr>)"

record knowledgeParams =
  kp_name :: string
  kp_description :: string
  kp_makePublic :: bool

definition doSearchKnowledgeBases :: "world \<Rightarrow> string \<Rightarrow> state \<Rightarrow> (error + knowledge list) \<times> state" where
  "doSearchKnowledgeBases W q s =
     (searchKnowledgeBases W (trace s) q, emit (SearchKnowledgeBases q) s)"

definition createKnowledgeBase :: "world \<Rightarrow> knowledgeParams \<Rightarrow> state \<Rightarrow> (error + knowledge) \<times> state" where
  "createKnowledgeBase W params s =
     (let access_control = (if kp_makePublic params then AcNull else AcObject [])
      in (postCreateKnowledge W (trace s) (kp_name params) (kp_description params) access_control,
          emit (CreateKnowledgeBase (kp_name params) (kp_description params) access_control) s))"

definition sameName :: "string \<Rightarrow> knowledge \<Rightarrow> bool" where
  \<comment> \<open>\<^verbatim>\<open>item.name.trim().toLowerCase() === params.name.trim().toLowerCase()\<close>\<close>
  "sameName requested item = (toLowerCase (trim (kb_name item)) = toLowerCase (trim requested))"

definition getOrCreateKnowledgeBase ::
  "world \<Rightarrow> knowledgeParams \<Rightarrow> state \<Rightarrow> (error + knowledge \<times> bool) \<times> state" where
  "getOrCreateKnowledgeBase W params s =
     (case doSearchKnowledgeBases W (kp_name params) s of
        (Inl e, s1) \<Rightarrow> (Inl e, s1)
      | (Inr found, s1) \<Rightarrow>
          (case find (sameName (kp_name params)) found of
             Some exact \<Rightarrow> (Inr (exact, False), s1)
           | None \<Rightarrow>
               (case createKnowledgeBase W params s1 of
                  (Inl e, s2) \<Rightarrow> (Inl e, s2)
                | (Inr created, s2) \<Rightarrow> (Inr (created, True), s2))))"

definition addFilesToKnowledgeBase :: "world \<Rightarrow> string \<Rightarrow> string list \<Rightarrow> state \<Rightarrow> error option \<times> state" where
  "addFilesToKnowledgeBase W knowledgeBaseId fileIds s =
     (postBatchAdd W (trace s) knowledgeBaseId fileIds,
      emit (AddFilesToKnowledgeBase knowledgeBaseId fileIds) s)"

section \<open>The ingestion tool (\<^verbatim>\<open>ingestToOpenWebUITool\<close>, \<^verbatim>\<open>src/tools/scholar.ts\<close>)\<close>

definition safeChar :: "char \<Rightarrow> bool" where
  \<comment> \<open>\<^verbatim>\<open>[a-zA-Z0-9._ -]\<close>\<close>
  "safeChar c = (let n = code c in
     (97 \<le> n \<and> n \<le> 122) \<or> (65 \<le> n \<and> n \<le> 90) \<or> (48 \<le> n \<and> n \<le> 57)
     \<or> c = CHR ''.'' \<or> c = CHR ''_'' \<or> c = CHR '' '' \<or> c = CHR ''-'')"

function collapseSpaces :: "string \<Rightarrow> string" where
  \<comment> \<open>\<^verbatim>\<open>.replace(/\s+/g, " ")\<close>\<close>
  "collapseSpaces [] = []"
| "collapseSpaces (c # cs) =
     (if isSpace c then CHR '' '' # collapseSpaces (dropWhile isSpace cs)
      else c # collapseSpaces cs)"
  by pat_completeness auto
termination
  by (relation "measure length") (auto simp: length_dropWhile_le less_Suc_eq_le)

definition sanitizeFilename :: "platform \<Rightarrow> string \<Rightarrow> string" where
  \<comment> \<open>with the default \<^verbatim>\<open>maxLen = 120\<close>\<close>
  "sanitizeFilename P input =
     (let ascii = trim (collapseSpaces
            (map (\<lambda>c. if safeChar c then c else CHR ''_'') (nfkdAscii P input)));
          safe = (if length ascii > 0 then ascii else ''paper'')
      in map (\<lambda>c. if isSpace c then CHR ''_'' else c) (trim (take 120 safe)))"

definition truthy :: "string option \<Rightarrow> bool" where
  \<comment> \<open>a string or null used as a condition: null and the empty string are false\<close>
  "truthy v = (case v of None \<Rightarrow> False | Some x \<Rightarrow> x \<noteq> '''')"

definition buildAbstractNote :: "candidate \<Rightarrow> string \<Rightarrow> string" where
  "buildAbstractNote c note =
     join [CHR 0x0A]
       ([''# '' @ title c, '''', ''- OpenAlex: '' @ openalexId c]
        @ (if truthy (doi c) then [''- DOI: '' @ the (doi c)] else [])
        @ (case publicationYear c of
             None \<Rightarrow> []
           | Some y \<Rightarrow> if y \<noteq> 0 then [''- Year: '' @ showInt y] else [])
        @ [''- OA: '' @ (if isOa c then ''yes'' else ''no'') @ '' ('' @ oaStatus c @ '')'',
           ''- Retrieval mode: abstract-only'',
           ''- Note: '' @ note,
           '''',
           ''## Abstract'',
           (if abstractText c \<noteq> '''' then abstractText c else ''No abstract available.'')])"

definition cacheCandidate :: "candidate \<Rightarrow> state \<Rightarrow> state" where
  "cacheCandidate c s =
     s\<lparr>candidateCache := ((candidateCache s)(openalexId c \<mapsto> c))(openalexShortId c \<mapsto> c)\<rparr>"

definition resolveCandidate :: "world \<Rightarrow> string \<Rightarrow> string \<Rightarrow> state \<Rightarrow> (error + candidate) \<times> state" where
  "resolveCandidate W rawId q s =
     (case normalizeOpenAlexId rawId of
        Inl e \<Rightarrow> (Inl e, s)
      | Inr n \<Rightarrow>
          (case orElse (candidateCache s (canonical n)) (candidateCache s (short n)) of
             Some cached \<Rightarrow> (Inr cached, s)
           | None \<Rightarrow>
               (case doGetWork W (canonical n) q s of
                  (Inl e, s1) \<Rightarrow> (Inl e, s1)
                | (Inr fetched, s1) \<Rightarrow> (Inr fetched, cacheCandidate fetched s1))))"

record ingestArgs =
  arg_candidateIds :: "string list"
  arg_query :: "string option"
  arg_knowledgeBaseName :: "string option"
  arg_knowledgeBaseDescription :: "string option"
  arg_makePublic :: "bool option"
  arg_maxPapers :: "int option"
  arg_fileProcessTimeoutSec :: "int option"
  arg_openwebuiBaseUrl :: "string option"
  arg_openwebuiApiKey :: "string option"

record ingestInput =
  candidateIds :: "string list"
  queryText :: "string option"
  knowledgeBaseName :: string
  knowledgeBaseDescription :: string
  makePublic :: bool
  maxPapers :: nat
  fileProcessTimeoutSec :: nat
  openwebuiBaseUrl :: "string option"
  openwebuiApiKey :: "string option"

text \<open>
  \<^verbatim>\<open>ingestToOpenWebUISchema.parse(args)\<close>, for arguments of the right JSON types: the
  bounds of the schema are checked and its defaults filled in.  The text of a validation
  error is not modelled: it names the field.
\<close>

definition parseIngestArgs :: "ingestArgs \<Rightarrow> error + ingestInput" where
  "parseIngestArgs args =
     (let ids = arg_candidateIds args;
          maxP = (case arg_maxPapers args of None \<Rightarrow> 10 | Some n \<Rightarrow> n);
          timeout = (case arg_fileProcessTimeoutSec args of None \<Rightarrow> 900 | Some n \<Rightarrow> n)
      in if \<not> list_all (\<lambda>i. length i \<ge> 1) ids \<or> length ids < 1 \<or> length ids > 30
         then Inl (ZodError ''candidateIds'')
         else if maxP < 1 \<or> maxP > 30 then Inl (ZodError ''maxPapers'')
         else if timeout < 30 \<or> timeout > 3600 then Inl (ZodError ''fileProcessTimeoutSec'')
         else Inr \<lparr>candidateIds = ids,
                   queryText = arg_query args,
                   knowledgeBaseName =
                     (case arg_knowledgeBaseName args of None \<Rightarrow> ''Public OA Scholar KB'' | Some n \<Rightarrow> n),
                   knowledgeBaseDescription =
                     (case arg_knowledgeBaseDescription args of
                        None \<Rightarrow> ''OA-first literature corpus. Non-OA papers are stored as abstract-only notes.''
                      | Some d \<Rightarrow> d),
                   makePublic = (case arg_makePublic args of None \<Rightarrow> True | Some b \<Rightarrow> b),
                   maxPapers = nat maxP,
                   fileProcessTimeoutSec = nat timeout,
                   openwebuiBaseUrl = arg_openwebuiBaseUrl args,
                   openwebuiApiKey = arg_openwebuiApiKey args\<rparr>)"

record ingestionRecord =
  openalex_id :: string
  record_title :: string
  retrieval_mode :: retrievalMode
  retrieval_note :: string
  openwebui_file_id :: "string option"
  openwebui_status :: string
  record_error :: "string option"

record acquired =
  localPath :: string
  retrievalMode :: retrievalMode
  retrievalNote :: string

definition unavailableNote :: string where
  "unavailableNote = ''OA PDF unavailable; stored abstract-only note.''"

definition downloadedNote :: string where
  "downloadedNote = ''Downloaded OA PDF and uploaded for full embedding.''"

definition failedNote :: "error \<Rightarrow> string" where
  "failedNote e = ''PDF download failed ('' @ message e @ ''); stored abstract-only note.''"

definition tryAcquire :: "platform \<Rightarrow> world \<Rightarrow> candidate \<Rightarrow> string \<Rightarrow> state \<Rightarrow> (error + acquired) \<times> state" where
  \<comment> \<open>the \<^verbatim>\<open>try\<close> block of the retrieval\<close>
  "tryAcquire P W c baseName s =
     (if isOa c \<and> truthy (pdfUrl c) then
        (case tryDownloadPdf W (the (pdfUrl c)) s of
           (Inl e, s1) \<Rightarrow> (Inl e, s1)
         | (Inr pdfBuffer, s1) \<Rightarrow>
             (let path = scratchPath P (baseName @ ''.pdf'') in
              case doWriteFile W path pdfBuffer s1 of
                (Some e, s2) \<Rightarrow> (Inl e, s2)
              | (None, s2) \<Rightarrow>
                  (Inr \<lparr>localPath = path, retrievalMode = Pdf, retrievalNote = downloadedNote\<rparr>, s2)))
      else
        (let path = scratchPath P (baseName @ ''.md'') in
         case doWriteFile W path (buildAbstractNote c unavailableNote) s of
           (Some e, s1) \<Rightarrow> (Inl e, s1)
         | (None, s1) \<Rightarrow>
             (Inr \<lparr>localPath = path, retrievalMode = AbstractOnly, retrievalNote = unavailableNote\<rparr>, s1)))"

definition acquire :: "platform \<Rightarrow> world \<Rightarrow> candidate \<Rightarrow> string \<Rightarrow> state \<Rightarrow> (error + acquired) \<times> state" where
  \<comment> \<open>the \<^verbatim>\<open>try\<close> block with its \<^verbatim>\<open>catch\<close>; an exception of the \<^verbatim>\<open>catch\<close> block leaves
      the tool\<close>
  "acquire P W c baseName s =
     (case tryAcquire P W c baseName s of
        (Inr a, s1) \<Rightarrow> (Inr a, s1)
      | (Inl e, s1) \<Rightarrow>
          (let path = scratchPath P (baseName @ ''.md'');
               note = failedNote e
           in case doWriteFile W path (buildAbstractNote c note) s1 of
                (Some e2, s2) \<Rightarrow> (Inl e2, s2)
              | (None, s2) \<Rightarrow>
                  (Inr \<lparr>localPath = path, retrievalMode = AbstractOnly, retrievalNote = note\<rparr>, s2)))"

record uploaded =
  uploadedFileId :: "string option"
  uploadStatus :: string
  uploadError :: "string option"
  pushed :: "string list"

text \<open>
  The upload of one file: the \<^verbatim>\<open>try\<close> block with its \<^verbatim>\<open>catch\<close>.  \<^verbatim>\<open>pushed\<close> lists
  what the block appends to \<^verbatim>\<open>successfulFileIds\<close>.
\<close>

definition uploadAndWait :: "world \<Rightarrow> string \<Rightarrow> uploadMetadata \<Rightarrow> nat \<Rightarrow> state \<Rightarrow> uploaded \<times> state" where
  "uploadAndWait W path metadata timeoutSeconds s =
     (case doUploadFile W path metadata s of
        (Inl e, s1) \<Rightarrow>
          (\<lparr>uploadedFileId = None, uploadStatus = ''failed'', uploadError = Some (message e),
            pushed = []\<rparr>, s1)
      | (Inr fileId, s1) \<Rightarrow>
          (case doWaitForFileProcessed W fileId timeoutSeconds s1 of
             (Inl e, s2) \<Rightarrow>
               (\<lparr>uploadedFileId = Some fileId, uploadStatus = ''failed'',
                 uploadError = Some (message e), pushed = []\<rparr>, s2)
           | (Inr finalStatus, s2) \<Rightarrow>
               (if finalStatus = ''completed'' then
                  \<lparr>uploadedFileId = Some fileId, uploadStatus = finalStatus, uploadError = None,
                   pushed = [fileId]\<rparr>
                else if finalStatus = ''failed'' then
                  \<lparr>uploadedFileId = Some fileId, uploadStatus = finalStatus,
                   uploadError = Some ''OpenWebUI processing failed'', pushed = []\<rparr>
                else if finalStatus = ''timeout'' then
                  \<lparr>uploadedFileId = Some fileId, uploadStatus = finalStatus,
                   uploadError = Some ''OpenWebUI processing timeout'', pushed = []\<rparr>
                else
                  \<lparr>uploadedFileId = Some fileId, uploadStatus = finalStatus, uploadError = None,
                   pushed = []\<rparr>, s2)))"

definition processCandidate ::
  "platform \<Rightarrow> world \<Rightarrow> ingestInput \<Rightarrow> string \<Rightarrow> state \<Rightarrow> (error + ingestionRecord \<times> string list) \<times> state" where
  \<comment> \<open>one round of the loop over \<^verbatim>\<open>selectedIds\<close>: the record pushed to \<^verbatim>\<open>processed\<close> and
      what is appended to \<^verbatim>\<open>successfulFileIds\<close>\<close>
  "processCandidate P W input rawId s =
     (let q = (case queryText input of None \<Rightarrow> '''' | Some x \<Rightarrow> x) in
      case resolveCandidate W rawId q s of
        (Inl e, s1) \<Rightarrow> (Inl e, s1)
      | (Inr c, s1) \<Rightarrow>
          (let baseName = sanitizeFilename P (title c @ ''_'' @ openalexShortId c) in
           case acquire P W c baseName s1 of
             (Inl e, s2) \<Rightarrow> (Inl e, s2)
           | (Inr a, s2) \<Rightarrow>
               (let metadata = \<lparr>meta_source = ''openalex'', meta_openalex_id = openalexId c,
                                 meta_doi = doi c, meta_title = title c,
                                 meta_retrieval_mode = retrievalMode a, meta_query = q\<rparr>;
                    (u, s3) = uploadAndWait W (localPath a) metadata (fileProcessTimeoutSec input) s2;
                    (ignored, s4) = doUnlink W (localPath a) s3
                in (Inr (\<lparr>openalex_id = openalexId c, record_title = title c,
                           retrieval_mode = retrievalMode a, retrieval_note = retrievalNote a,
                           openwebui_file_id = uploadedFileId u, openwebui_status = uploadStatus u,
                           record_error = uploadError u\<rparr>, pushed u), s4))))"

fun processCandidates ::
  "platform \<Rightarrow> world \<Rightarrow> ingestInput \<Rightarrow> string list \<Rightarrow> ingestionRecord list \<times> string list \<Rightarrow> state
     \<Rightarrow> (error + ingestionRecord list \<times> string list) \<times> state" where
  \<comment> \<open>the loop; the pair is \<^verbatim>\<open>(processed, successfulFileIds)\<close>\<close>
  "processCandidates P W input [] acc s = (Inr acc, s)"
| "processCandidates P W input (rawId # rest) (processed, successfulFileIds) s =
     (case processCandidate P W input rawId s of
        (Inl e, s1) \<Rightarrow> (Inl e, s1)
      | (Inr (r, newIds), s1) \<Rightarrow>
          processCandidates P W input rest (processed @ [r], successfulFileIds @ newIds) s1)"

record knowledgeBaseInfo =
  info_id :: string
  info_name :: string
  created :: bool
  requested_public :: bool
  actual_public :: bool

record ingestResponse =
  knowledge_base :: knowledgeBaseInfo
  uploaded_success_count :: int
  uploaded_failed_count :: int
  warning :: "string option"
  results :: "ingestionRecord list"

definition publicWarning :: string where
  "publicWarning = ''Knowledge base is not publicly readable due to current OpenWebUI permissions. It was created/used with restricted access.''"

definition finishIngest ::
  "world \<Rightarrow> ingestInput \<Rightarrow> ingestionRecord list \<times> string list \<Rightarrow> state \<Rightarrow> (error + ingestResponse) \<times> state" where
  \<comment> \<open>the part of the tool after the loop\<close>
  "finishIngest W input acc s =
     (let processed = fst acc; successfulFileIds = snd acc in
      case getOrCreateKnowledgeBase W
             \<lparr>kp_name = knowledgeBaseName input, kp_description = knowledgeBaseDescription input,
              kp_makePublic = makePublic input\<rparr> s of
        (Inl e, s1) \<Rightarrow> (Inl e, s1)
      | (Inr (knowledgeBase, isNew), s1) \<Rightarrow>
          (case (if length successfulFileIds > 0
                 then addFilesToKnowledgeBase W (kb_id knowledgeBase) successfulFileIds s1
                 else (None, s1)) of
             (Some e, s2) \<Rightarrow> (Inl e, s2)
           | (None, s2) \<Rightarrow>
               (let isPublic = (kb_access_control knowledgeBase = AcNull) in
                (Inr \<lparr>knowledge_base =
                        \<lparr>info_id = kb_id knowledgeBase, info_name = kb_name knowledgeBase,
                         created = isNew, requested_public = makePublic input,
                         actual_public = isPublic\<rparr>,
                      uploaded_success_count = int (length successfulFileIds),
                      uploaded_failed_count = int (length processed) - int (length successfulFileIds),
                      warning = (if makePublic input \<and> \<not> isPublic then Some publicWarning else None),
                      results = processed\<rparr>, s2))))"

definition ingestToOpenWebUITool ::
  "platform \<Rightarrow> world \<Rightarrow> ingestArgs \<Rightarrow> state \<Rightarrow> (error + ingestResponse) \<times> state" where
  "ingestToOpenWebUITool P W args s =
     (case parseIngestArgs args of
        Inl e \<Rightarrow> (Inl e, s)
      | Inr input \<Rightarrow>
          (case newOpenWebUIClient P (openwebuiBaseUrl input) (openwebuiApiKey input) of
             Inl e \<Rightarrow> (Inl e, s)
           | Inr openWebUI \<Rightarrow>
               (let uniqueIds = setOf (candidateIds input);
                    selectedIds = take (maxPapers input) uniqueIds
                in case doMkdir W (scratchDir P) s of
                     (Some e, s1) \<Rightarrow> (Inl e, s1)
                   | (None, s1) \<Rightarrow>
                       (case processCandidates P W input selectedIds ([], []) s1 of
                          (Inl e, s2) \<Rightarrow> (Inl e, s2)
                        | (Inr acc, s2) \<Rightarrow> finishIngest W input acc s2))))"

section \<open>Example worlds\<close>

definition unreachable :: error where
  "unreachable = SystemError ''fetch failed''"

definition deafWorld :: world where
  \<comment> \<open>the file system works; every request to the network fails\<close>
  "deafWorld =
     \<lparr>mkdir = (\<lambda>h path. None),
      getWork = (\<lambda>h ident q. Inl unreachable),
      fetch = (\<lambda>h url. Inl unreachable),
      writeFile = (\<lambda>h path content. None),
      uploadFile = (\<lambda>h path metadata. Inl unreachable),
      waitForFileProcessed = (\<lambda>h fileId t. Inl unreachable),
      unlink = (\<lambda>h path. None),
      searchKnowledgeBases = (\<lambda>h q. Inl unreachable),
      postCreateKnowledge = (\<lambda>h n d ac. Inl unreachable),
      postBatchAdd = (\<lambda>h kb ids. Some unreachable)\<rparr>"

definition emptyState :: state where
  "emptyState = \<lparr>trace = [], candidateCache = (\<lambda>k. None)\<rparr>"

definition pdfResponse :: "string \<Rightarrow> response" where
  "pdfResponse bytes =
     \<lparr>status = 200, statusText = ''OK'', contentLengthHeader = None,
      contentTypeHeader = Some ''application/pdf'', body = Inr bytes\<rparr>"

definition notFoundResponse :: response where
  "notFoundResponse =
     \<lparr>status = 404, statusText = ''Not Found'', contentLengthHeader = Some 0,
      contentTypeHeader = Some ''text/html'', body = Inr ''''\<rparr>"

definition hugePdf :: string where
  \<comment> \<open>a body of 80 MiB and 8 bytes\<close>
  "hugePdf = ''%PDF-1.7'' @ replicate maxPdfBytes (CHR ''0'')"

definition demoPlatform :: platform where
  "demoPlatform =
     \<lparr>nfkdAscii = (\<lambda>s. s),
      scratchDir = ''/tmp/mcp-scholar-oa'',
      scratchPath = (\<lambda>name. ''/tmp/mcp-scholar-oa/'' @ name),
      envBaseUrl = Some ''http://localhost:3000/'',
      envApiKey = Some ''sk-demo''\<rparr>"

definition demoCandidate :: "string \<Rightarrow> candidate" where
  \<comment> \<open>W3 is not open access; the others are, with a PDF URL\<close>
  "demoCandidate ident =
     \<lparr>openalexId = ident, openalexShortId = drop 21 ident, title = ''Paper '' @ drop 21 ident,
      publicationYear = Some 2023, publicationDate = None, doi = None, authors = [],
      citedByCount = 0, isOa = (drop 21 ident \<noteq> ''W3''), oaStatus = ''gold'',
      pdfUrl = Some (''https://example.org/'' @ drop 21 ident @ ''.pdf''),
      landingPageUrl = None, abstractText = ''An abstract.'', relevanceScore = 0,
      relevanceReasons = []\<rparr>"

fun storeKbs :: "knowledge list \<Rightarrow> call list \<Rightarrow> knowledge list" where
  "storeKbs kbs [] = kbs"
| "storeKbs kbs (CreateKnowledgeBase n d ac # h) =
     storeKbs (kbs @ [\<lparr>kb_id = ''kb-'' @ decimal (length kbs), kb_name = n, kb_description = d,
                       kb_access_control = ac\<rparr>]) h"
| "storeKbs kbs (c # h) = storeKbs kbs h"

text \<open>
  The knowledge store is a service outside the repository.  Its model here follows the
  interface that the specification describes: "KB search: query by name substring,
  returns list of bases" and "KB create: accepts name/description/access-control; returns
  created base".  \<^verbatim>\<open>storeKbs init h\<close> lists the bases of a store that began with the
  bases \<^verbatim>\<open>init\<close> and answered the requests \<^verbatim>\<open>h\<close>.
\<close>

definition storeSearch :: "knowledge list \<Rightarrow> call list \<Rightarrow> string \<Rightarrow> error + knowledge list" where
  "storeSearch init h q =
     Inr (filter (\<lambda>kb. includesStr (toLowerCase (kb_name kb)) (toLowerCase q)) (storeKbs init h))"

definition storeCreate ::
  "knowledge list \<Rightarrow> call list \<Rightarrow> string \<Rightarrow> string \<Rightarrow> accessControl \<Rightarrow> error + knowledge" where
  "storeCreate init h n d ac =
     Inr \<lparr>kb_id = ''kb-'' @ decimal (length (storeKbs init h)), kb_name = n, kb_description = d,
          kb_access_control = ac\<rparr>"

definition endsWith :: "string \<Rightarrow> string \<Rightarrow> bool" where
  "endsWith s suffix = startsWith (rev s) (rev suffix)"

definition demoWorld :: world where
  \<comment> \<open>W1 has a PDF, every other download answers 404; the file of W1 completes, the file
      of W2 times out, every other file fails; the knowledge store starts empty\<close>
  "demoWorld =
     \<lparr>mkdir = (\<lambda>h path. None),
      getWork = (\<lambda>h ident q. Inr (demoCandidate ident)),
      fetch = (\<lambda>h url. if url = ''https://example.org/W1.pdf''
                         then Inr (pdfResponse ''%PDF-1.4 demo'') else Inr notFoundResponse),
      writeFile = (\<lambda>h path content. None),
      uploadFile = (\<lambda>h path metadata. Inr (''file-'' @ drop 21 (meta_openalex_id metadata))),
      waitForFileProcessed = (\<lambda>h fileId t.
         Inr (if fileId = ''file-W1'' then ''completed''
              else if fileId = ''file-W2'' then ''timeout'' else ''failed'')),
      unlink = (\<lambda>h path. None),
      searchKnowledgeBases = storeSearch [],
      postCreateKnowledge = storeCreate [],
      postBatchAdd = (\<lambda>h kb ids. None)\<rparr>"

definition fullDiskWorld :: world where
  \<comment> \<open>as \<^verbatim>\<open>demoWorld\<close>, but a PDF cannot be written: no space is left for it\<close>
  "fullDiskWorld =
     demoWorld\<lparr>writeFile := (\<lambda>h path content.
        if endsWith path ''.pdf'' then Some (SystemError ''ENOSPC: no space left on device, write'')
        else None)\<rparr>"

definition readOnlyWorld :: world where
  \<comment> \<open>as \<^verbatim>\<open>demoWorld\<close>, but no file can be written\<close>
  "readOnlyWorld =
     demoWorld\<lparr>writeFile := (\<lambda>h path content.
        Some (SystemError ''EROFS: read-only file system, open''))\<rparr>"

definition demoArgs :: "string list \<Rightarrow> int \<Rightarrow> ingestArgs" where
  "demoArgs ids n =
     \<lparr>arg_candidateIds = ids, arg_query = None, arg_knowledgeBaseName = None,
      arg_knowledgeBaseDescription = None, arg_makePublic = None, arg_maxPapers = Some n,
      arg_fileProcessTimeoutSec = None, arg_openwebuiBaseUrl = None, arg_openwebuiApiKey = None\<rparr>"

section \<open>Notions used in the statements\<close>

definition spec_declaredLength :: "response \<Rightarrow> nat" where
  \<comment> \<open>\<^verbatim>\<open>Number(response.headers.get("content-length") || "0")\<close>\<close>
  "spec_declaredLength r = (case contentLengthHeader r of None \<Rightarrow> 0 | Some n \<Rightarrow> n)"

definition spec_indicatesPdf :: "response \<Rightarrow> string \<Rightarrow> bool" where
  \<comment> \<open>the content type mentions "pdf", or the first four bytes read as "%PDF"\<close>
  "spec_indicatesPdf r raw =
     (includesStr (toLowerCase (case contentTypeHeader r of None \<Rightarrow> '''' | Some h \<Rightarrow> h)) ''pdf''
      \<or> asciiDecode (take 4 raw) = ''%PDF'')"

definition extends :: "(call \<Rightarrow> bool) \<Rightarrow> state \<Rightarrow> state \<Rightarrow> bool" where
  \<comment> \<open>the second state continues the trace of the first by requests of kind \<^verbatim>\<open>K\<close>\<close>
  "extends K s s' = (\<exists>evs. trace s' = trace s @ evs \<and> list_all K evs)"

fun loopCall :: "call \<Rightarrow> bool" where
  \<comment> \<open>the requests of the loop over the candidates\<close>
  "loopCall (GetWork ident q) = True"
| "loopCall (Fetch url) = True"
| "loopCall (WriteFile path content) = True"
| "loopCall (UploadFile path metadata) = True"
| "loopCall (WaitForFileProcessed fileId t) = True"
| "loopCall (Unlink path) = True"
| "loopCall c = False"

fun attachCalls :: "call list \<Rightarrow> (string \<times> string list) list" where
  \<comment> \<open>the batch-attach requests of a trace\<close>
  "attachCalls [] = []"
| "attachCalls (AddFilesToKnowledgeBase kb ids # h) = (kb, ids) # attachCalls h"
| "attachCalls (c # h) = attachCalls h"

definition completedIds :: "ingestionRecord list \<Rightarrow> string list" where
  \<comment> \<open>the file IDs of the records whose status is "completed"\<close>
  "completedIds rs =
     concat (map (\<lambda>r. case openwebui_file_id r of None \<Rightarrow> [] | Some f \<Rightarrow> [f])
       (filter (\<lambda>r. openwebui_status r = ''completed'') rs))"

fun silentCall :: "call \<Rightarrow> bool" where
  \<comment> \<open>a request that is no work lookup, no upload and no poll\<close>
  "silentCall (GetWork ident q) = False"
| "silentCall (UploadFile path metadata) = False"
| "silentCall (WaitForFileProcessed fileId t) = False"
| "silentCall c = True"

fun getWorkCalls :: "call list \<Rightarrow> string list" where
  \<comment> \<open>the work IDs of the lookup requests of a trace\<close>
  "getWorkCalls [] = []"
| "getWorkCalls (GetWork ident q # evs) = ident # getWorkCalls evs"
| "getWorkCalls (c # evs) = getWorkCalls evs"

definition workIdsOf :: "string list \<Rightarrow> string list" where
  \<comment> \<open>the canonical work IDs of the raw IDs that have one\<close>
  "workIdsOf ids =
     concat (map (\<lambda>rawId. case normalizeOpenAlexId rawId of Inl e \<Rightarrow> [] | Inr n \<Rightarrow> [canonical n]) ids)"

fun polledIds :: "call list \<Rightarrow> string list" where
  \<comment> \<open>the file IDs of the poll requests of a trace\<close>
  "polledIds [] = []"
| "polledIds (WaitForFileProcessed fileId t # evs) = fileId # polledIds evs"
| "polledIds (c # evs) = polledIds evs"

text \<open>
  The answers of the world to the requests \<^verbatim>\<open>evs\<close> that follow the trace \<^verbatim>\<open>h\<close>: the file
  IDs that it returned to the upload requests; and the completed uploads, which are the
  file IDs of the poll requests that it answered with the status "completed" and that
  directly follow the upload request to which it returned that file ID.  An upload or a
  poll that the world answers with an exception contributes nothing.
\<close>

fun uploadedIds :: "world \<Rightarrow> call list \<Rightarrow> call list \<Rightarrow> string list" where
  "uploadedIds W h [] = []"
| "uploadedIds W h (UploadFile path metadata # evs) =
     (case uploadFile W h path metadata of Inl e \<Rightarrow> [] | Inr fileId \<Rightarrow> [fileId])
     @ uploadedIds W (h @ [UploadFile path metadata]) evs"
| "uploadedIds W h (c # evs) = uploadedIds W (h @ [c]) evs"

definition answeredUpload :: "world \<Rightarrow> call list \<Rightarrow> string \<Rightarrow> bool" where
  \<comment> \<open>the last request of the trace is an upload, to which the world returned the file ID\<close>
  "answeredUpload W h fileId =
     (h \<noteq> [] \<and>
      (case last h of
         UploadFile path metadata \<Rightarrow> uploadFile W (butlast h) path metadata = Inr fileId
       | _ \<Rightarrow> False))"

fun completedUploads :: "world \<Rightarrow> call list \<Rightarrow> call list \<Rightarrow> string list" where
  "completedUploads W h [] = []"
| "completedUploads W h (WaitForFileProcessed fileId t # evs) =
     (if answeredUpload W h fileId \<and> waitForFileProcessed W h fileId t = Inr ''completed''
      then [fileId] else [])
     @ completedUploads W (h @ [WaitForFileProcessed fileId t]) evs"
| "completedUploads W h (c # evs) = completedUploads W (h @ [c]) evs"

definition between :: "world \<Rightarrow> state \<Rightarrow> state \<Rightarrow> string list \<Rightarrow> string list \<Rightarrow> bool" where
  \<comment> \<open>from the first state to the second the trace grows by requests in which the polls
      are of the file IDs that the world returned to the uploads, in order; \<^verbatim>\<open>ids\<close> are the
      completed uploads, \<^verbatim>\<open>works\<close> the work IDs looked up\<close>
  "between W s s' ids works =
     (\<exists>evs. trace s' = trace s @ evs
        \<and> polledIds evs = uploadedIds W (trace s) evs
        \<and> completedUploads W (trace s) evs = ids
        \<and> getWorkCalls evs = works)"

fun roundsFor ::
  "platform \<Rightarrow> world \<Rightarrow> ingestInput \<Rightarrow> state \<Rightarrow> string list \<Rightarrow> ingestionRecord list \<Rightarrow> bool" where
  \<comment> \<open>the records are those that the rounds of the loop make for the raw IDs, one round
      after the other: the first round starts in the given state, every other one in the
      state that the round before it has left\<close>
  "roundsFor P W input s [] rs = (rs = [])"
| "roundsFor P W input s (rawId # ids) [] = False"
| "roundsFor P W input s (rawId # ids) (r # rs) =
     (case processCandidate P W input rawId s of
        (Inl e, s1) \<Rightarrow> False
      | (Inr (r', newIds), s1) \<Rightarrow> r' = r \<and> roundsFor P W input s1 ids rs)"

fun createCalls :: "call list \<Rightarrow> (string \<times> string \<times> accessControl) list" where
  \<comment> \<open>the create requests of a trace\<close>
  "createCalls [] = []"
| "createCalls (CreateKnowledgeBase n d ac # h) = (n, d, ac) # createCalls h"
| "createCalls (c # h) = createCalls h"

definition paramsOf :: "ingestInput \<Rightarrow> knowledgeParams" where
  "paramsOf input =
     \<lparr>kp_name = knowledgeBaseName input, kp_description = knowledgeBaseDescription input,
      kp_makePublic = makePublic input\<rparr>"

definition hasFile :: "ingestionRecord \<Rightarrow> bool" where
  \<comment> \<open>a record whose status is "completed" has a file ID\<close>
  "hasFile r = (openwebui_status r = ''completed'' \<longrightarrow> openwebui_file_id r \<noteq> None)"

definition hugeWorld :: world where
  \<comment> \<open>as \<^verbatim>\<open>demoWorld\<close>, but every download answers with \<^verbatim>\<open>hugePdf\<close> and no
      content-length header\<close>
  "hugeWorld = demoWorld\<lparr>fetch := (\<lambda>h url. Inr (pdfResponse hugePdf))\<rparr>"

definition completed :: "ingestionRecord \<Rightarrow> bool" where
  "completed r = (openwebui_status r = ''completed'')"

definition demoKb :: knowledgeBaseInfo where
  "demoKb = \<lparr>info_id = ''kb-0'', info_name = ''Public OA Scholar KB'', created = True,
            requested_public = True, actual_public = True\<rparr>"

definition demoRecord1 :: "retrievalMode \<Rightarrow> string \<Rightarrow> ingestionRecord" where
  "demoRecord1 m note =
     \<lparr>openalex_id = ''https://openalex.org/W1'', record_title = ''Paper W1'', retrieval_mode = m,
      retrieval_note = note, openwebui_file_id = Some ''file-W1'',
      openwebui_status = ''completed'', record_error = None\<rparr>"

definition demoRecord2 :: ingestionRecord where
  "demoRecord2 =
     \<lparr>openalex_id = ''https://openalex.org/W2'', record_title = ''Paper W2'',
      retrieval_mode = AbstractOnly,
      retrieval_note = ''PDF download failed (HTTP 404 Not Found); stored abstract-only note.'',
      openwebui_file_id = Some ''file-W2'', openwebui_status = ''timeout'',
      record_error = Some ''OpenWebUI processing timeout''\<rparr>"

definition demoRecord3 :: ingestionRecord where
  "demoRecord3 =
     \<lparr>openalex_id = ''https://openalex.org/W3'', record_title = ''Paper W3'',
      retrieval_mode = AbstractOnly,
      retrieval_note = ''OA PDF unavailable; stored abstract-only note.'',
      openwebui_file_id = Some ''file-W3'', openwebui_status = ''failed'',
      record_error = Some ''OpenWebUI processing failed''\<rparr>"

definition flakyWorld :: world where
  \<comment> \<open>as \<^verbatim>\<open>demoWorld\<close>, but the upload for W2 fails, the poll of the file of W3 fails, and
      every other poll answers "completed"\<close>
  "flakyWorld =
     demoWorld\<lparr>uploadFile := (\<lambda>h path metadata.
        if meta_openalex_id metadata = ''https://openalex.org/W2'' then Inl unreachable
        else Inr (''file-'' @ drop 21 (meta_openalex_id metadata))),
      waitForFileProcessed := (\<lambda>h fileId t.
        if fileId = ''file-W3'' then Inl unreachable else Inr ''completed'')\<rparr>"

definition flakyRecord2 :: ingestionRecord where
  "flakyRecord2 =
     \<lparr>openalex_id = ''https://openalex.org/W2'', record_title = ''Paper W2'',
      retrieval_mode = AbstractOnly,
      retrieval_note = ''PDF download failed (HTTP 404 Not Found); stored abstract-only note.'',
      openwebui_file_id = None, openwebui_status = ''failed'',
      record_error = Some ''fetch failed''\<rparr>"

definition flakyRecord3 :: ingestionRecord where
  "flakyRecord3 =
     \<lparr>openalex_id = ''https://openalex.org/W3'', record_title = ''Paper W3'',
      retrieval_mode = AbstractOnly,
      retrieval_note = ''OA PDF unavailable; stored abstract-only note.'',
      openwebui_file_id = Some ''file-W3'', openwebui_status = ''failed'',
      record_error = Some ''fetch failed''\<rparr>"

definition storeWorld :: "knowledge list \<Rightarrow> world \<Rightarrow> bool" where
  \<comment> \<open>the knowledge store of the world is the modelled store that began with \<^verbatim>\<open>init\<close>\<close>
  "storeWorld init W =
     (searchKnowledgeBases W = storeSearch init \<and> postCreateKnowledge W = storeCreate init)"

definition newKb :: "knowledge list \<Rightarrow> knowledgeParams \<Rightarrow> knowledge" where
  \<comment> \<open>the base that the modelled store holding \<^verbatim>\<open>kbs\<close> creates for a create request of the
      client\<close>
  "newKb kbs p =
     \<lparr>kb_id = ''kb-'' @ decimal (length kbs), kb_name = kp_name p,
      kb_description = kp_description p,
      kb_access_control = (if kp_makePublic p then AcNull else AcObject [])\<rparr>"

definition demoReport :: "bool \<Rightarrow> ingestResponse" where
  "demoReport isNew =
     \<lparr>knowledge_base = demoKb\<lparr>created := isNew\<rparr>, uploaded_success_count = 1,
      uploaded_failed_count = 0, warning = None, results = [demoRecord1 Pdf downloadedNote]\<rparr>"

definition oldKb :: knowledge where
  "oldKb = \<lparr>kb_id = ''kb-old'', kb_name = ''public oa scholar kb'', kb_description = ''An older corpus.'',
            kb_access_control = AcObject []\<rparr>"

definition usedWorld :: world where
  \<comment> \<open>as \<^verbatim>\<open>demoWorld\<close>, but the knowledge store already holds \<^verbatim>\<open>oldKb\<close>\<close>
  "usedWorld =
     demoWorld\<lparr>searchKnowledgeBases := storeSearch [oldKb], postCreateKnowledge := storeCreate [oldKb]\<rparr>"

definition usedReport :: ingestResponse where
  "usedReport =
     \<lparr>knowledge_base = \<lparr>info_id = ''kb-old'', info_name = ''public oa scholar kb'', created = False,
                         requested_public = True, actual_public = False\<rparr>,
      uploaded_success_count = 1, uploaded_failed_count = 0, warning = Some publicWarning,
      results = [demoRecord1 Pdf downloadedNote]\<rparr>"

section \<open>Properties of the text utilities\<close>

lemmas char_defs = code_def isL_def isN_def isDigit_def isSpace_def lowerChar_def upperChar_def
  tokStart_def tokCont_def

lemma set_setOf: "set (setOf xs) = set xs"
  by (induction xs rule: setOf.induct) auto

lemma distinct_setOf: "distinct (setOf xs)"
  by (induction xs rule: setOf.induct) (auto simp: set_setOf)

lemma length_setOf: "length (setOf xs) = card (set xs)"
  by (metis distinct_card distinct_setOf set_setOf)

lemma setOf_Nil_iff: "setOf xs = [] \<longleftrightarrow> xs = []"
  by (cases xs) auto

lemma countOverlap_filter:
  "countOverlap B T qs (a, b) =
     (a + length (filter (\<lambda>t. t \<in> set B) qs), b + length (filter (\<lambda>t. t \<in> set T) qs))"
  by (induction qs arbitrary: a b) auto

lemma distinct_count_inter:
  "distinct qs \<Longrightarrow> length (filter (\<lambda>t. t \<in> S) qs) = card (set qs \<inter> S)"
  by (simp add: distinct_length_filter Int_commute Collect_mem_eq)

lemma overlap_counts:
  "countOverlap (setOf B) (setOf T) (setOf qs) (0, 0) =
     (card (set qs \<inter> set B), card (set qs \<inter> set T))"
  by (simp add: countOverlap_filter distinct_count_inter distinct_setOf set_setOf)

lemma startsWith_iff: "startsWith s p \<longleftrightarrow> (\<exists>r. s = p @ r)"
  by (induction s p rule: startsWith.induct) auto

lemma includesStr_iff: "includesStr s sub \<longleftrightarrow> spec_isSubstring sub s"
proof (induction s)
  case Nil
  then show ?case by (auto simp: spec_isSubstring_def)
next
  case (Cons c cs)
  show ?case
  proof
    assume "includesStr (c # cs) sub"
    then consider "startsWith (c # cs) sub" | "includesStr cs sub" by auto
    then show "spec_isSubstring sub (c # cs)"
    proof cases
      case 1
      then obtain r where "c # cs = sub @ r" by (auto simp: startsWith_iff)
      then have "c # cs = [] @ sub @ r" by simp
      then show ?thesis unfolding spec_isSubstring_def by blast
    next
      case 2
      then obtain p r where "cs = p @ sub @ r" using Cons.IH by (auto simp: spec_isSubstring_def)
      then have "c # cs = (c # p) @ sub @ r" by simp
      then show ?thesis unfolding spec_isSubstring_def by blast
    qed
  next
    assume "spec_isSubstring sub (c # cs)"
    then obtain p r where pr: "c # cs = p @ sub @ r" by (auto simp: spec_isSubstring_def)
    show "includesStr (c # cs) sub"
    proof (cases p)
      case Nil
      with pr have "startsWith (c # cs) sub" by (auto simp: startsWith_iff)
      then show ?thesis by simp
    next
      case (Cons d p')
      with pr have "cs = p' @ sub @ r" by simp
      then have "spec_isSubstring sub cs" unfolding spec_isSubstring_def by blast
      then show ?thesis using Cons.IH by simp
    qed
  qed
qed

lemma score_unfold:
  assumes "tokenize q \<noteq> []"
  shows "score (computeRelevanceScore q t a) =
     min 1 (0.55 * spec_coverage (set (tokenize q)) (set (tokenize (t @ '' '' @ a)))
          + 0.25 * spec_coverage (set (tokenize q)) (set (tokenize t))
          + (if spec_isSubstring (toLowerCase q) (toLowerCase t) then 0.15 else 0)
          + (if a \<noteq> [] then 0.05 else 0))"
proof -
  have ne: "card (set (tokenize q)) \<noteq> 0"
    using assms by (simp add: card_eq_0_iff)
  show ?thesis
    unfolding computeRelevanceScore_def uniqueTokens_def Let_def overlap_counts length_setOf
      spec_coverage_def includesStr_iff prod.case
    using ne by simp
qed

text \<open>
  C3. For every query, title and abstract, the score of \<^verbatim>\<open>computeRelevanceScore\<close> is 0 when
  the query has no token, and otherwise the minimum of 1 and
  0.55 * bodyCoverage + 0.25 * titleCoverage + phraseBoost + abstractBoost, where the
  coverages are the share of the query's token set found among the tokens of title plus
  abstract, respectively of the title, the phrase boost is 0.15 exactly when the lower-cased
  query is a substring of the lower-cased title, and the abstract boost is 0.05 exactly
  when the abstract is not empty.  The score always lies between 0 and 1.
\<close>

theorem computeRelevanceScore_formula:
  "score (computeRelevanceScore q t a) =
     (if set (tokenize q) = {} then 0
      else min 1 (0.55 * spec_coverage (set (tokenize q)) (set (tokenize (t @ '' '' @ a)))
          + 0.25 * spec_coverage (set (tokenize q)) (set (tokenize t))
          + (if spec_isSubstring (toLowerCase q) (toLowerCase t) then 0.15 else 0)
          + (if a \<noteq> [] then 0.05 else 0)))
   \<and> 0 \<le> score (computeRelevanceScore q t a) \<and> score (computeRelevanceScore q t a) \<le> 1"
proof (cases "tokenize q = []")
  case True
  then show ?thesis by (simp add: computeRelevanceScore_def uniqueTokens_def)
next
  case False
  have nn: "0 \<le> spec_coverage X Y" for X Y by (simp add: spec_coverage_def)
  have "0 \<le> 0.55 * spec_coverage (set (tokenize q)) (set (tokenize (t @ '' '' @ a)))
          + 0.25 * spec_coverage (set (tokenize q)) (set (tokenize t))
          + (if spec_isSubstring (toLowerCase q) (toLowerCase t) then 0.15 else 0)
          + (if a \<noteq> [] then (0.05::real) else 0)"
    by (intro add_nonneg_nonneg mult_nonneg_nonneg nn) auto
  then show ?thesis using False
    by (simp only: score_unfold[OF False] set_empty if_False) simp
qed

text \<open>
  C4, as amended.  For the query "graph neural network", the title "Graph Neural Networks
  for Protein Function" and an empty abstract, the query token "network" is not a token
  of the title (its token is "networks"), so both coverages are 2/3; the lower-cased
  query is a substring of the lower-cased title, so the phrase boost is 0.15; the
  abstract boost is 0; the score is 0.55 * 2/3 + 0.25 * 2/3 + 0.15 = 41/60.
\<close>

theorem computeRelevanceScore_example:
  "computeRelevanceScore ''graph neural network'' ''Graph Neural Networks for Protein Function'' '''' =
     \<lparr>score = 41 / 60,
      reasons = [QueryCoverage (2 / 3), TitleCoverage (2 / 3), ExactQueryPhraseInTitle]\<rparr>"
  by code_simp

text \<open>
  C4, as stated, fails: the score is not 0.80, and the reasons are not the two coverages
  1.00 without a phrase tag.
\<close>

theorem computeRelevanceScore_example_counterexample:
  "score (computeRelevanceScore ''graph neural network''
       ''Graph Neural Networks for Protein Function'' '''') \<noteq> 0.80
   \<and> reasons (computeRelevanceScore ''graph neural network''
       ''Graph Neural Networks for Protein Function'' '''') \<noteq> [QueryCoverage 1, TitleCoverage 1]"
  by code_simp
subsection \<open>normalizeOpenAlexId\<close>

lemma spec_hasWorkId_Nil: "\<not> spec_hasWorkId []"
  by (simp add: spec_hasWorkId_def)

lemma spec_hasWorkId_Cons:
  "spec_hasWorkId (c # cs) \<longleftrightarrow>
     ((c = CHR ''W'' \<or> c = CHR ''w'') \<and> (\<exists>d after. cs = d # after \<and> isDigit d)) \<or> spec_hasWorkId cs"
proof
  assume "spec_hasWorkId (c # cs)"
  then obtain before x d after where
    eq: "c # cs = before @ x # d # after" and x: "x = CHR ''W'' \<or> x = CHR ''w''" and d: "isDigit d"
    unfolding spec_hasWorkId_def by blast
  show "((c = CHR ''W'' \<or> c = CHR ''w'') \<and> (\<exists>d after. cs = d # after \<and> isDigit d)) \<or> spec_hasWorkId cs"
  proof (cases before)
    case Nil
    with eq x d show ?thesis by auto
  next
    case (Cons b bs)
    with eq have "cs = bs @ x # d # after" by simp
    with x d have "spec_hasWorkId cs" unfolding spec_hasWorkId_def by blast
    then show ?thesis ..
  qed
next
  assume "((c = CHR ''W'' \<or> c = CHR ''w'') \<and> (\<exists>d after. cs = d # after \<and> isDigit d)) \<or> spec_hasWorkId cs"
  then show "spec_hasWorkId (c # cs)"
  proof
    assume "(c = CHR ''W'' \<or> c = CHR ''w'') \<and> (\<exists>d after. cs = d # after \<and> isDigit d)"
    then obtain d after where "c # cs = [] @ c # d # after" "c = CHR ''W'' \<or> c = CHR ''w''" "isDigit d"
      by auto
    then show ?thesis unfolding spec_hasWorkId_def by blast
  next
    assume "spec_hasWorkId cs"
    then obtain before x d after where
      "cs = before @ x # d # after" "x = CHR ''W'' \<or> x = CHR ''w''" "isDigit d"
      unfolding spec_hasWorkId_def by blast
    then have "c # cs = (c # before) @ x # d # after" by simp
    with \<open>x = CHR ''W'' \<or> x = CHR ''w''\<close> \<open>isDigit d\<close> show ?thesis
      unfolding spec_hasWorkId_def by blast
  qed
qed

lemma takeWhile_digit_Nil_iff:
  "takeWhile isDigit cs \<noteq> [] \<longleftrightarrow> (\<exists>d after. cs = d # after \<and> isDigit d)"
  by (cases cs) auto

lemma matchWorkId_None_iff: "matchWorkId raw = None \<longleftrightarrow> \<not> spec_hasWorkId raw"
  by (induction raw) (auto simp: spec_hasWorkId_Nil spec_hasWorkId_Cons takeWhile_digit_Nil_iff)

lemma matchWorkId_Some:
  "matchWorkId raw = Some m \<Longrightarrow>
     \<exists>before c ds after. raw = before @ c # ds @ after \<and> (c = CHR ''W'' \<or> c = CHR ''w'')
       \<and> ds \<noteq> [] \<and> list_all isDigit ds \<and> \<not> spec_hasWorkId before
       \<and> (case after of [] \<Rightarrow> True | a # rest \<Rightarrow> \<not> isDigit a) \<and> m = c # ds"
proof (induction raw)
  case Nil
  then show ?case by simp
next
  case (Cons x xs)
  show ?case
  proof (cases "(x = CHR ''W'' \<or> x = CHR ''w'') \<and> takeWhile isDigit xs \<noteq> []")
    case True
    with Cons.prems have m: "m = x # takeWhile isDigit xs" by auto
    have split: "x # xs = [] @ x # takeWhile isDigit xs @ dropWhile isDigit xs" by simp
    have digits: "list_all isDigit (takeWhile isDigit xs)"
      by (simp add: list_all_iff) (meson set_takeWhileD)
    have stop: "(case dropWhile isDigit xs of [] \<Rightarrow> True | a # rest \<Rightarrow> \<not> isDigit a)"
    proof (cases "dropWhile isDigit xs")
      case Nil
      show ?thesis unfolding Nil by simp
    next
      case (Cons a rest)
      have "dropWhile isDigit xs \<noteq> []" unfolding Cons by simp
      then have "\<not> isDigit (hd (dropWhile isDigit xs))"
        by (rule hd_dropWhile)
      then show ?thesis unfolding Cons by simp
    qed
    show ?thesis
      using True m split digits stop spec_hasWorkId_Nil by blast
  next
    case False
    with Cons.prems have "matchWorkId xs = Some m" by auto
    from Cons.IH[OF this] obtain before c ds after where
      h: "xs = before @ c # ds @ after" "c = CHR ''W'' \<or> c = CHR ''w''" "ds \<noteq> []"
         "list_all isDigit ds" "\<not> spec_hasWorkId before"
         "(case after of [] \<Rightarrow> True | a # rest \<Rightarrow> \<not> isDigit a)" "m = c # ds"
      by blast
    have notd: "\<not> isDigit c" using h(2) by (auto simp: isDigit_def code_def)
    have "\<not> spec_hasWorkId (x # before)"
    proof (cases before)
      case Nil
      then show ?thesis by (simp add: spec_hasWorkId_Cons spec_hasWorkId_Nil)
    next
      case (Cons b bs)
      have "\<not> ((x = CHR ''W'' \<or> x = CHR ''w'') \<and> isDigit b)"
        using False h(1) Cons by (auto simp: takeWhile_digit_Nil_iff)
      then show ?thesis using h(5) Cons by (auto simp: spec_hasWorkId_Cons)
    qed
    moreover have "x # xs = (x # before) @ c # ds @ after" using h(1) by simp
    ultimately show ?thesis using h by blast
  qed
qed

lemma upperChar_digit: "isDigit c \<Longrightarrow> upperChar c = c"
  by (auto simp: isDigit_def upperChar_def Let_def)

lemma upperChar_W: "upperChar CHR ''W'' = CHR ''W''" "upperChar CHR ''w'' = CHR ''W''"
  by code_simp+

lemma toUpperCase_workId:
  "c = CHR ''W'' \<or> c = CHR ''w'' \<Longrightarrow> list_all isDigit ds \<Longrightarrow> toUpperCase (c # ds) = CHR ''W'' # ds"
  by (auto simp: toUpperCase_def upperChar_W list_all_iff upperChar_digit map_idI)

lemma takeWhile_all_digits: "list_all isDigit ds \<Longrightarrow> takeWhile isDigit ds = ds"
  by (simp add: list_all_iff)

lemma matchWorkId_short:
  "ds \<noteq> [] \<Longrightarrow> list_all isDigit ds \<Longrightarrow> matchWorkId (CHR ''W'' # ds) = Some (CHR ''W'' # ds)"
  by (simp add: takeWhile_all_digits)

lemma matchWorkId_canonical:
  "ds \<noteq> [] \<Longrightarrow> list_all isDigit ds \<Longrightarrow>
     matchWorkId (''https://openalex.org/'' @ CHR ''W'' # ds) = Some (CHR ''W'' # ds)"
  by (simp add: takeWhile_all_digits)

lemma normalizeOpenAlexId_Inr:
  assumes "normalizeOpenAlexId raw = Inr r"
  shows "canonical r = ''https://openalex.org/'' @ short r
     \<and> (\<exists>before c ds after. raw = before @ c # ds @ after \<and> (c = CHR ''W'' \<or> c = CHR ''w'')
          \<and> ds \<noteq> [] \<and> list_all isDigit ds \<and> \<not> spec_hasWorkId before
          \<and> (case after of [] \<Rightarrow> True | a # rest \<Rightarrow> \<not> isDigit a) \<and> short r = CHR ''W'' # ds)
     \<and> normalizeOpenAlexId (canonical r) = Inr r
     \<and> normalizeOpenAlexId (short r) = Inr r"
proof -
  from assms obtain m where m: "matchWorkId raw = Some m"
    and r: "r = \<lparr>canonical = ''https://openalex.org/'' @ toUpperCase m, short = toUpperCase m\<rparr>"
    by (auto simp: normalizeOpenAlexId_def Let_def split: option.splits)
  from matchWorkId_Some[OF m] obtain before c ds after where
    h: "raw = before @ c # ds @ after" "c = CHR ''W'' \<or> c = CHR ''w''" "ds \<noteq> []"
       "list_all isDigit ds" "\<not> spec_hasWorkId before"
       "(case after of [] \<Rightarrow> True | a # rest \<Rightarrow> \<not> isDigit a)" "m = c # ds"
    by blast
  have up: "toUpperCase m = CHR ''W'' # ds"
    using h(2,4,7) by (simp add: toUpperCase_workId)
  have up2: "toUpperCase (CHR ''W'' # ds) = CHR ''W'' # ds"
    using h(4) by (simp add: toUpperCase_workId)
  have c1: "normalizeOpenAlexId (canonical r) = Inr r"
    unfolding normalizeOpenAlexId_def r up
    using matchWorkId_canonical[OF h(3,4)] up2 by (simp add: Let_def)
  have c2: "normalizeOpenAlexId (short r) = Inr r"
    unfolding normalizeOpenAlexId_def r up
    using matchWorkId_short[OF h(3,4)] up2 by (simp add: Let_def)
  have "short r = CHR ''W'' # ds" by (simp add: r up)
  with h c1 c2 r show ?thesis by auto
qed

text \<open>
  C8, as amended.  \<^verbatim>\<open>normalizeOpenAlexId\<close> extracts the leftmost occurrence of the letter W,
  in either case, followed by one or more digits (all the digits that follow), from any
  input string; the short form is that match in upper case and the canonical form is
  "https://openalex.org/" followed by the short form.  It throws "Invalid OpenAlex id"
  exactly when the input has no W or w directly followed by a digit.  It is idempotent:
  the canonical form and the short form of a result normalize to the same result.
\<close>

theorem normalizeOpenAlexId_spec:
  "((\<exists>e. normalizeOpenAlexId raw = Inl e) \<longleftrightarrow> \<not> spec_hasWorkId raw)
   \<and> (\<not> spec_hasWorkId raw \<longrightarrow>
        normalizeOpenAlexId raw = Inl (Error (''Invalid OpenAlex id: '' @ raw)))
   \<and> (\<forall>r. normalizeOpenAlexId raw = Inr r \<longrightarrow>
        canonical r = ''https://openalex.org/'' @ short r
        \<and> (\<exists>before c ds after. raw = before @ c # ds @ after \<and> (c = CHR ''W'' \<or> c = CHR ''w'')
             \<and> ds \<noteq> [] \<and> list_all isDigit ds \<and> \<not> spec_hasWorkId before
             \<and> (case after of [] \<Rightarrow> True | a # rest \<Rightarrow> \<not> isDigit a) \<and> short r = CHR ''W'' # ds)
        \<and> normalizeOpenAlexId (canonical r) = Inr r
        \<and> normalizeOpenAlexId (short r) = Inr r)"
proof -
  have a: "(\<exists>e. normalizeOpenAlexId raw = Inl e) \<longleftrightarrow> \<not> spec_hasWorkId raw"
    using matchWorkId_None_iff[of raw]
    by (auto simp: normalizeOpenAlexId_def Let_def split: option.splits)
  have b: "\<not> spec_hasWorkId raw \<longrightarrow>
        normalizeOpenAlexId raw = Inl (Error (''Invalid OpenAlex id: '' @ raw))"
    using matchWorkId_None_iff[of raw] by (auto simp: normalizeOpenAlexId_def)
  show ?thesis using a b normalizeOpenAlexId_Inr[of raw] by blast
qed

theorem normalizeOpenAlexId_spec_witness:
  "normalizeOpenAlexId ''w2907492528'' =
     Inr \<lparr>canonical = ''https://openalex.org/W2907492528'', short = ''W2907492528''\<rparr>
   \<and> normalizeOpenAlexId ''https://openalex.org/W2907492528'' =
     Inr \<lparr>canonical = ''https://openalex.org/W2907492528'', short = ''W2907492528''\<rparr>
   \<and> normalizeOpenAlexId ''not-an-id'' = Inl (Error ''Invalid OpenAlex id: not-an-id'')
   \<and> \<not> spec_hasWorkId ''not-an-id''"
proof -
  have a: "normalizeOpenAlexId ''w2907492528'' =
     Inr \<lparr>canonical = ''https://openalex.org/W2907492528'', short = ''W2907492528''\<rparr>"
    by code_simp
  have b: "normalizeOpenAlexId ''not-an-id'' = Inl (Error ''Invalid OpenAlex id: not-an-id'')"
    by code_simp
  from normalizeOpenAlexId_spec[of "''w2907492528''"] a
  have c: "normalizeOpenAlexId ''https://openalex.org/W2907492528'' =
     Inr \<lparr>canonical = ''https://openalex.org/W2907492528'', short = ''W2907492528''\<rparr>"
    by simp
  from normalizeOpenAlexId_spec[of "''not-an-id''"] b
  have d: "\<not> spec_hasWorkId ''not-an-id''" by blast
  show ?thesis using a b c d by blast
qed

text \<open>
  C8, as stated, fails: "A123" has a letter followed by digits, and the code throws.
\<close>

theorem normalizeOpenAlexId_counterexample:
  "spec_hasLetterThenDigit ''A123''
   \<and> normalizeOpenAlexId ''A123'' = Inl (Error ''Invalid OpenAlex id: A123'')"
  by code_simp
subsection \<open>rebuildAbstractFromInvertedIndex\<close>

lemma stepMax_eq: "stepMax ps m = Max (insert m (set ps))"
proof (induction ps arbitrary: m)
  case Nil
  then show ?case by (simp add: stepMax_def)
next
  case (Cons p ps)
  have "stepMax (p # ps) m = stepMax ps (if p > m then p else m)"
    by (simp add: stepMax_def)
  also have "\<dots> = Max (insert (if p > m then p else m) (set ps))"
    by (rule Cons.IH)
  also have "\<dots> = Max (insert m (set (p # ps)))"
  proof (cases "set ps = {}")
    case True
    then show ?thesis by (auto simp: max_def)
  next
    case False
    then show ?thesis by (auto simp: max_def insert_commute)
  qed
  finally show ?case .
qed

lemma maxFold_eq:
  "fold (\<lambda>(word, positions) maxPosition. stepMax positions maxPosition) idx m =
     Max (insert m (allPositions idx))"
proof (induction idx arbitrary: m)
  case Nil
  then show ?case by (simp add: allPositions_def)
next
  case (Cons e idx)
  obtain w ps where e: "e = (w, ps)" by (cases e)
  have fin: "finite (allPositions idx)" by (simp add: allPositions_def)
  have "fold (\<lambda>(word, positions) maxPosition. stepMax positions maxPosition) (e # idx) m =
        fold (\<lambda>(word, positions) maxPosition. stepMax positions maxPosition) idx (stepMax ps m)"
    by (simp add: e)
  also have "\<dots> = Max (insert (stepMax ps m) (allPositions idx))"
    by (rule Cons.IH)
  also have "\<dots> = Max (insert (Max (insert m (set ps))) (allPositions idx))"
    by (simp only: stepMax_eq)
  also have "\<dots> = Max (insert m (set ps) \<union> allPositions idx)"
  proof (cases "allPositions idx = {}")
    case True
    then show ?thesis by simp
  next
    case False
    have "Max (insert m (set ps) \<union> allPositions idx) =
          max (Max (insert m (set ps))) (Max (allPositions idx))"
      using fin False by (intro Max_Un) auto
    moreover have "Max (insert (Max (insert m (set ps))) (allPositions idx)) =
          max (Max (insert m (set ps))) (Max (allPositions idx))"
      using fin False by (intro Max_insert) auto
    ultimately show ?thesis by simp
  qed
  also have "insert m (set ps) \<union> allPositions idx = insert m (allPositions (e # idx))"
    by (auto simp: allPositions_def e)
  finally show ?case .
qed

lemma maxPositionOf_eq: "maxPositionOf idx = Max (insert (- 1) (allPositions idx))"
  unfolding maxPositionOf_def by (rule maxFold_eq)

lemma position_le_max: "p \<in> allPositions idx \<Longrightarrow> p \<le> maxPositionOf idx"
  by (simp add: maxPositionOf_eq allPositions_def)

lemma maxPositionOf_neg_iff: "maxPositionOf idx < 0 \<longleftrightarrow> (\<forall>p \<in> allPositions idx. p < 0)"
proof -
  have fin: "finite (insert (- 1) (allPositions idx))" by (simp add: allPositions_def)
  have "Max (insert (- 1) (allPositions idx)) < 0 \<longleftrightarrow> (\<forall>p \<in> insert (- 1) (allPositions idx). p < 0)"
    using fin by (intro Max_less_iff) auto
  then show ?thesis by (simp add: maxPositionOf_eq)
qed

lemma length_setSlot: "length (setSlot ts pos w) = length ts"
  by (simp add: setSlot_def)

lemma nth_setSlot:
  "i < length ts \<Longrightarrow> setSlot ts pos w ! i = (if pos = int i then w else ts ! i)"
  by (auto simp: setSlot_def nth_list_update)

lemma length_fillWord: "length (fold (\<lambda>pos tokens. setSlot tokens pos w) ps ts) = length ts"
  by (induction ps arbitrary: ts) (auto simp: length_setSlot)

lemma nth_fillWord:
  "i < length ts \<Longrightarrow>
     fold (\<lambda>pos tokens. setSlot tokens pos w) ps ts ! i = (if int i \<in> set ps then w else ts ! i)"
proof (induction ps arbitrary: ts)
  case Nil
  then show ?case by simp
next
  case (Cons p ps)
  have "i < length (setSlot ts p w)" using Cons.prems by (simp add: length_setSlot)
  from Cons.IH[OF this] show ?case using Cons.prems by (auto simp: nth_setSlot)
qed

lemma length_fillTokens: "length (fillTokens idx ts) = length ts"
  unfolding fillTokens_def
  by (induction idx arbitrary: ts) (auto simp: length_fillWord)

lemma nth_fillTokens:
  "i < length ts \<Longrightarrow>
     fillTokens idx ts ! i =
       (case filter (\<lambda>(word, positions). int i \<in> set positions) idx of
          [] \<Rightarrow> ts ! i
        | e # es \<Rightarrow> fst (last (e # es)))"
proof (induction idx arbitrary: ts)
  case Nil
  then show ?case by (simp add: fillTokens_def)
next
  case (Cons e idx)
  obtain w ps where e: "e = (w, ps)" by (cases e)
  let ?ts' = "fold (\<lambda>pos tokens. setSlot tokens pos w) ps ts"
  have len: "i < length ?ts'" using Cons.prems by (simp add: length_fillWord)
  have step: "fillTokens (e # idx) ts = fillTokens idx ?ts'"
    by (simp add: fillTokens_def e)
  show ?case
    unfolding step Cons.IH[OF len]
    using Cons.prems
    by (cases "filter (\<lambda>(word, positions). int i \<in> set positions) idx")
       (auto simp: e nth_fillWord)
qed

lemma slotsOf_Inr:
  assumes "maxPositionOf idx < 4294967295"
  shows "slotsOf idx = Inr (fillTokens idx (replicate (nat (maxPositionOf idx + 1)) ''''))"
  using assms by (simp add: slotsOf_def newArray_def)

lemma slotsOf_Inl:
  assumes "4294967295 \<le> maxPositionOf idx"
  shows "slotsOf idx = Inl (RangeError ''Invalid array length'')"
  using assms by (simp add: slotsOf_def newArray_def)

lemma length_slots:
  "length (fillTokens idx (replicate (nat (maxPositionOf idx + 1)) '''')) = nat (maxPositionOf idx + 1)"
  by (simp add: length_fillTokens)

lemma nth_slots:
  "i < nat (maxPositionOf idx + 1) \<Longrightarrow>
     fillTokens idx (replicate (nat (maxPositionOf idx + 1)) '''') ! i = spec_wordAt idx (int i)"
  unfolding spec_wordAt_def
  by (simp add: length_fillTokens nth_fillTokens split: list.splits)

lemma slots_eq_spec_slots:
  "fillTokens idx (replicate (nat (maxPositionOf idx + 1)) '''') = spec_slots idx"
proof -
  have s: "spec_slots idx = map (\<lambda>i. spec_wordAt idx (int i)) [0 ..< nat (maxPositionOf idx + 1)]"
    by (simp add: spec_slots_def maxPositionOf_eq)
  show ?thesis
    unfolding s by (rule nth_equalityI) (simp_all add: length_fillTokens nth_slots)
qed

lemma collapse_keeps_nonspace:
  "filter (\<lambda>c. \<not> isSpace c) (collapseBeforePunct s) = filter (\<lambda>c. \<not> isSpace c) s"
  by (induction s) auto

lemma isPunct_not_space: "isPunct c \<Longrightarrow> \<not> isSpace c"
  by (auto simp: isPunct_def isSpace_def code_def)

lemma collapse_head:
  "collapseBeforePunct s = x # rest \<Longrightarrow> isPunct x \<Longrightarrow>
     (case dropWhile isSpace s of [] \<Rightarrow> False | p # r \<Rightarrow> isPunct p)"
proof (induction s)
  case Nil
  then show ?case by simp
next
  case (Cons c cs)
  show ?case
  proof (cases "isSpace c")
    case True
    show ?thesis
    proof (cases "case dropWhile isSpace cs of [] \<Rightarrow> False | p # r \<Rightarrow> isPunct p")
      case True
      with \<open>isSpace c\<close> show ?thesis by simp
    next
      case False
      with \<open>isSpace c\<close> Cons.prems have "x = c" by simp
      with Cons.prems(2) \<open>isSpace c\<close> show ?thesis by (simp add: isPunct_not_space)
    qed
  next
    case False
    with Cons.prems have "x = c" by simp
    with Cons.prems(2) False show ?thesis by simp
  qed
qed

lemma collapse_no_space_before_punct:
  "collapseBeforePunct s = before @ w # p # after \<Longrightarrow> isSpace w \<Longrightarrow> \<not> isPunct p"
proof (induction s arbitrary: before)
  case Nil
  then show ?case by simp
next
  case (Cons c cs)
  show ?case
  proof (cases "isSpace c \<and> (case dropWhile isSpace cs of [] \<Rightarrow> False | p # r \<Rightarrow> isPunct p)")
    case True
    with Cons.prems have "collapseBeforePunct cs = before @ w # p # after" by simp
    from Cons.IH[OF this Cons.prems(2)] show ?thesis .
  next
    case False
    with Cons.prems have eq: "c # collapseBeforePunct cs = before @ w # p # after" by auto
    show ?thesis
    proof (cases before)
      case Nil
      with eq have cw: "c = w" and rest: "collapseBeforePunct cs = p # after" by auto
      show ?thesis
      proof
        assume "isPunct p"
        from collapse_head[OF rest this] Cons.prems(2) cw False show False by simp
      qed
    next
      case (Cons b bs)
      with eq have "collapseBeforePunct cs = bs @ w # p # after" by simp
      from Cons.IH[OF this Cons.prems(2)] show ?thesis .
    qed
  qed
qed

lemma rebuild_examples:
  "rebuildAbstractFromInvertedIndex (Some [(''The'', [0]), (''cat'', [1]), (''sat.'', [2])]) = Inr ''The cat sat.''"
  "rebuildAbstractFromInvertedIndex (Some [(''Go'', [0]), ('','', [1]), (''see'', [2])]) = Inr ''Go, see''"
  "rebuildAbstractFromInvertedIndex (Some [(''a'', [0, 4]), (''b'', [2])]) = Inr ''a b a''"
  by code_simp+

lemma Max_positions:
  assumes "\<exists>p \<in> allPositions idx. 0 \<le> p"
  shows "maxPositionOf idx = Max (allPositions idx)" and "0 \<le> maxPositionOf idx"
proof -
  have fin: "finite (allPositions idx)" by (simp add: allPositions_def)
  from assms obtain p where p: "p \<in> allPositions idx" "0 \<le> p" by blast
  then have ne: "allPositions idx \<noteq> {}" by blast
  have "p \<le> Max (allPositions idx)" using fin p(1) by simp
  then have "- 1 \<le> Max (allPositions idx)" using p(2) by linarith
  then show "maxPositionOf idx = Max (allPositions idx)"
    using fin ne by (simp add: maxPositionOf_eq max_def)
  show "0 \<le> maxPositionOf idx"
    using position_le_max[OF p(1)] p(2) by linarith
qed

lemma rebuild_in_range:
  assumes "\<exists>p \<in> allPositions idx. 0 \<le> p" and "Max (allPositions idx) < 4294967295"
  shows "\<exists>slots. slotsOf idx = Inr slots
        \<and> slots = spec_slots idx
        \<and> length slots = nat (Max (allPositions idx) + 1)
        \<and> (\<forall>i < length slots. slots ! i = spec_wordAt idx (int i))
        \<and> rebuildAbstractFromInvertedIndex (Some idx) =
            Inr (trim (collapseBeforePunct
              (join '' '' (filter (\<lambda>slot. trim slot \<noteq> '''') slots))))"
proof -
  let ?slots = "fillTokens idx (replicate (nat (maxPositionOf idx + 1)) '''')"
  have m: "maxPositionOf idx = Max (allPositions idx)" and nn: "0 \<le> maxPositionOf idx"
    using Max_positions[OF assms(1)] by auto
  have lt: "maxPositionOf idx < 4294967295" using assms(2) m by simp
  have s: "slotsOf idx = Inr ?slots" by (rule slotsOf_Inr[OF lt])
  have l: "length ?slots = nat (Max (allPositions idx) + 1)"
    using length_slots[of idx] m by simp
  have n: "\<forall>i < length ?slots. ?slots ! i = spec_wordAt idx (int i)"
    using nth_slots[of _ idx] length_slots[of idx] by simp
  have r: "rebuildAbstractFromInvertedIndex (Some idx) =
            Inr (trim (collapseBeforePunct
              (join '' '' (filter (\<lambda>slot. trim slot \<noteq> '''') ?slots))))"
    using nn s by (simp add: rebuildAbstractFromInvertedIndex_def)
  show ?thesis using s l n r slots_eq_spec_slots[of idx] by blast
qed

lemma rebuild_out_of_range:
  assumes "\<exists>p \<in> allPositions idx. 4294967295 \<le> p"
  shows "slotsOf idx = Inl (RangeError ''Invalid array length'')
         \<and> rebuildAbstractFromInvertedIndex (Some idx) = Inl (RangeError ''Invalid array length'')"
proof -
  from assms obtain p where p: "p \<in> allPositions idx" "4294967295 \<le> p" by blast
  have big: "4294967295 \<le> maxPositionOf idx"
    using position_le_max[OF p(1)] p(2) by linarith
  then have "\<not> maxPositionOf idx < 0" by linarith
  then show ?thesis
    using slotsOf_Inl[OF big] by (simp add: rebuildAbstractFromInvertedIndex_def)
qed

text \<open>
  C9, as amended.  \<^verbatim>\<open>rebuildAbstractFromInvertedIndex\<close> returns the empty string for a null
  or undefined index and for an index that lists no non-negative position.  When the
  largest position is below \<^verbatim>\<open>2^32 - 1\<close>, the slot array has size largest position + 1, and
  slot i holds the word of the last entry that lists position i, or the empty string when
  none does; the result joins the slots that are not blank (not empty after trimming white
  space) with single spaces, removes any white space immediately before the punctuation
  marks ,.;:!? and trims the outcome.  When a position is \<^verbatim>\<open>2^32 - 1\<close> or more, the slot
  array cannot be made and the function throws a \<^verbatim>\<open>RangeError\<close>.  Removing white space
  before punctuation deletes white-space characters only, and leaves no white-space
  character directly before a punctuation mark.
\<close>

theorem rebuildAbstractFromInvertedIndex_spec:
  "rebuildAbstractFromInvertedIndex None = Inr ''''
   \<and> ((\<forall>p \<in> allPositions idx. p < 0) \<longrightarrow> rebuildAbstractFromInvertedIndex (Some idx) = Inr '''')
   \<and> ((\<exists>p \<in> allPositions idx. 0 \<le> p) \<and> Max (allPositions idx) < 4294967295 \<longrightarrow>
        (\<exists>slots. slotsOf idx = Inr slots
           \<and> slots = spec_slots idx
           \<and> length slots = nat (Max (allPositions idx) + 1)
           \<and> (\<forall>i < length slots. slots ! i = spec_wordAt idx (int i))
           \<and> rebuildAbstractFromInvertedIndex (Some idx) =
               Inr (trim (collapseBeforePunct
                 (join '' '' (filter (\<lambda>slot. trim slot \<noteq> '''') slots))))))
   \<and> ((\<exists>p \<in> allPositions idx. 4294967295 \<le> p) \<longrightarrow>
        slotsOf idx = Inl (RangeError ''Invalid array length'')
        \<and> rebuildAbstractFromInvertedIndex (Some idx) = Inl (RangeError ''Invalid array length''))
   \<and> filter (\<lambda>c. \<not> isSpace c) (collapseBeforePunct s) = filter (\<lambda>c. \<not> isSpace c) s
   \<and> (\<forall>before w p after.
        collapseBeforePunct s = before @ w # p # after \<and> isSpace w \<longrightarrow> \<not> isPunct p)"
proof -
  have a: "rebuildAbstractFromInvertedIndex None = Inr ''''"
    by (simp add: rebuildAbstractFromInvertedIndex_def)
  have b: "(\<forall>p \<in> allPositions idx. p < 0) \<longrightarrow> rebuildAbstractFromInvertedIndex (Some idx) = Inr ''''"
    by (simp add: rebuildAbstractFromInvertedIndex_def maxPositionOf_neg_iff)
  have c: "(\<exists>p \<in> allPositions idx. 0 \<le> p) \<and> Max (allPositions idx) < 4294967295 \<longrightarrow>
        (\<exists>slots. slotsOf idx = Inr slots
           \<and> slots = spec_slots idx
           \<and> length slots = nat (Max (allPositions idx) + 1)
           \<and> (\<forall>i < length slots. slots ! i = spec_wordAt idx (int i))
           \<and> rebuildAbstractFromInvertedIndex (Some idx) =
               Inr (trim (collapseBeforePunct
                 (join '' '' (filter (\<lambda>slot. trim slot \<noteq> '''') slots)))))"
    using rebuild_in_range[of idx] by blast
  have d: "(\<exists>p \<in> allPositions idx. 4294967295 \<le> p) \<longrightarrow>
        slotsOf idx = Inl (RangeError ''Invalid array length'')
        \<and> rebuildAbstractFromInvertedIndex (Some idx) = Inl (RangeError ''Invalid array length'')"
    using rebuild_out_of_range[of idx] by blast
  have e: "\<forall>before w p after.
        collapseBeforePunct s = before @ w # p # after \<and> isSpace w \<longrightarrow> \<not> isPunct p"
    using collapse_no_space_before_punct by blast
  have f: "filter (\<lambda>c. \<not> isSpace c) (collapseBeforePunct s) = filter (\<lambda>c. \<not> isSpace c) s"
    by (rule collapse_keeps_nonspace)
  show ?thesis using a b c d e f by (intro conjI)
qed

theorem rebuildAbstractFromInvertedIndex_spec_witness:
  "(\<exists>p \<in> allPositions [(''Go'', [0]), ('','', [1]), (''see'', [2])]. 0 \<le> p)
   \<and> Max (allPositions [(''Go'', [0]), ('','', [1]), (''see'', [2])]) < 4294967295
   \<and> (\<exists>slots. slotsOf [(''Go'', [0]), ('','', [1]), (''see'', [2])] = Inr slots \<and> length slots = 3)
   \<and> rebuildAbstractFromInvertedIndex (Some [(''Go'', [0]), ('','', [1]), (''see'', [2])]) = Inr ''Go, see''
   \<and> rebuildAbstractFromInvertedIndex (Some [(''The'', [0]), (''cat'', [1]), (''sat.'', [2])]) = Inr ''The cat sat.''
   \<and> rebuildAbstractFromInvertedIndex (Some [(''a'', [0, 4]), (''b'', [2])]) = Inr ''a b a''
   \<and> allPositions [(''x'', [])] = {}
   \<and> rebuildAbstractFromInvertedIndex (Some [(''x'', [])]) = Inr ''''
   \<and> (\<exists>p \<in> allPositions [(''x'', [4294967295])]. 4294967295 \<le> p)
   \<and> rebuildAbstractFromInvertedIndex (Some [(''x'', [4294967295])])
       = Inl (RangeError ''Invalid array length'')"
proof -
  let ?idx = "[(''Go'', [0]), ('','', [1]), (''see'', [2::int])]"
  have ap: "allPositions ?idx = {0, 1, 2}"
    by (auto simp: allPositions_def)
  have ex: "\<exists>p \<in> allPositions ?idx. 0 \<le> p"
    unfolding ap by simp
  have mx: "Max (allPositions ?idx) < 4294967295"
    unfolding ap by simp
  have len: "\<exists>slots. slotsOf ?idx = Inr slots \<and> length slots = 3"
    using rebuildAbstractFromInvertedIndex_spec[of ?idx "[]"] ex mx unfolding ap by auto
  have nil: "allPositions [(''x'', [])] = {}"
    by (simp add: allPositions_def)
  have none: "\<forall>p \<in> allPositions [(''x'', [])]. p < 0"
    unfolding nil by simp
  have empty: "rebuildAbstractFromInvertedIndex (Some [(''x'', [])]) = Inr ''''"
    using rebuildAbstractFromInvertedIndex_spec[of "[(''x'', [])]" "[]"] none by blast
  have huge: "\<exists>p \<in> allPositions [(''x'', [4294967295])]. 4294967295 \<le> p"
    by (simp add: allPositions_def)
  have thrown: "rebuildAbstractFromInvertedIndex (Some [(''x'', [4294967295])])
                  = Inl (RangeError ''Invalid array length'')"
    using rebuildAbstractFromInvertedIndex_spec[of "[(''x'', [4294967295])]" "[]"] huge by blast
  show ?thesis using ex mx len nil empty huge thrown rebuild_examples by (intro conjI)
qed

text \<open>
  C9, as stated, fails for a word with white space at its edge: joining the non-empty
  slots and removing white space before punctuation gives " a", and the code returns "a".
\<close>

theorem rebuildAbstractFromInvertedIndex_counterexample:
  "spec_rebuild [('' a'', [0])] = '' a''
   \<and> rebuildAbstractFromInvertedIndex (Some [('' a'', [0])]) = Inr ''a''"
  by code_simp

section \<open>Traces of the ingestion tool\<close>

lemma extends_refl: "extends K s s"
  by (simp add: extends_def)

lemma extends_trans: "extends K s s1 \<Longrightarrow> extends K s1 s2 \<Longrightarrow> extends K s s2"
  unfolding extends_def by (metis append.assoc list_all_append)

lemma extends_emit: "K c \<Longrightarrow> extends K s (emit c s)"
  by (simp add: extends_def emit_def)

lemma extends_emit_after: "extends K s s1 \<Longrightarrow> K c \<Longrightarrow> extends K s (emit c s1)"
  using extends_emit extends_trans by blast

lemma extends_cache: "extends K s s1 \<Longrightarrow> extends K s (cacheCandidate c s1)"
  by (simp add: extends_def cacheCandidate_def)

lemma polledIds_append: "polledIds (a @ b) = polledIds a @ polledIds b"
  by (induction a rule: polledIds.induct) auto

lemma getWorkCalls_append: "getWorkCalls (a @ b) = getWorkCalls a @ getWorkCalls b"
  by (induction a rule: getWorkCalls.induct) auto

lemma uploadedIds_append:
  "uploadedIds W h (a @ b) = uploadedIds W h a @ uploadedIds W (h @ a) b"
  by (induction W h a rule: uploadedIds.induct) auto

lemma completedUploads_append:
  "completedUploads W h (a @ b) = completedUploads W h a @ completedUploads W (h @ a) b"
  by (induction W h a rule: completedUploads.induct) auto

lemma silent_polledIds: "list_all silentCall evs \<Longrightarrow> polledIds evs = []"
  by (induction evs rule: polledIds.induct) auto

lemma silent_getWorkCalls: "list_all silentCall evs \<Longrightarrow> getWorkCalls evs = []"
  by (induction evs rule: getWorkCalls.induct) auto

lemma silent_uploadedIds: "list_all silentCall evs \<Longrightarrow> uploadedIds W h evs = []"
  by (induction W h evs rule: uploadedIds.induct) auto

lemma silent_completedUploads: "list_all silentCall evs \<Longrightarrow> completedUploads W h evs = []"
  by (induction W h evs rule: completedUploads.induct) auto

lemma between_refl: "between W s s [] []"
  by (simp add: between_def)

lemma between_silent: "extends silentCall s s' \<Longrightarrow> between W s s' [] []"
  unfolding between_def extends_def
  by (auto simp: silent_polledIds silent_getWorkCalls silent_uploadedIds silent_completedUploads)

lemma between_trans:
  assumes "between W s s1 a v" and "between W s1 s2 b w"
  shows "between W s s2 (a @ b) (v @ w)"
proof -
  from assms(1) obtain e1 where e1: "trace s1 = trace s @ e1"
    "polledIds e1 = uploadedIds W (trace s) e1" "completedUploads W (trace s) e1 = a"
    "getWorkCalls e1 = v"
    unfolding between_def by blast
  from assms(2) obtain e2 where e2: "trace s2 = trace s1 @ e2"
    "polledIds e2 = uploadedIds W (trace s1) e2" "completedUploads W (trace s1) e2 = b"
    "getWorkCalls e2 = w"
    unfolding between_def by blast
  have "trace s2 = trace s @ (e1 @ e2)" using e1(1) e2(1) by simp
  moreover have "polledIds (e1 @ e2) = uploadedIds W (trace s) (e1 @ e2)"
    using e1 e2 by (simp add: polledIds_append uploadedIds_append)
  moreover have "completedUploads W (trace s) (e1 @ e2) = a @ b"
    using e1 e2 by (simp add: completedUploads_append)
  moreover have "getWorkCalls (e1 @ e2) = v @ w"
    using e1 e2 by (simp add: getWorkCalls_append)
  ultimately show ?thesis unfolding between_def by blast
qed

lemma between_silent_after:
  "between W s s1 a v \<Longrightarrow> extends silentCall s1 s2 \<Longrightarrow> between W s s2 a v"
  using between_trans[OF _ between_silent, of W s s1 a v s2] by simp

lemma between_unique:
  assumes "between W s s' a v" and "trace s' = trace s @ evs"
  shows "polledIds evs = uploadedIds W (trace s) evs"
    and "completedUploads W (trace s) evs = a"
    and "getWorkCalls evs = v"
  using assms unfolding between_def by auto

lemma workIdsOf_Cons: "workIdsOf (rawId # ids) = workIdsOf [rawId] @ workIdsOf ids"
  by (simp add: workIdsOf_def)

lemma resolveCandidate_extends:
  "resolveCandidate W rawId q s = (res, s') \<Longrightarrow> extends loopCall s s'"
  by (auto simp: resolveCandidate_def doGetWork_def extends_refl extends_emit extends_cache
      split: sum.splits option.splits)

lemma resolveCandidate_between:
  assumes "resolveCandidate W rawId q s = (res, s')"
  shows "\<exists>works. between W s s' [] works
           \<and> set works \<subseteq> set (workIdsOf [rawId]) \<and> length works \<le> 1"
proof (cases "normalizeOpenAlexId rawId")
  case (Inl e)
  with assms have "s' = s" by (simp add: resolveCandidate_def)
  then show ?thesis using between_refl[of W s] by auto
next
  case (Inr n)
  show ?thesis
  proof (cases "orElse (candidateCache s (canonical n)) (candidateCache s (short n))")
    case (Some cached)
    with assms Inr have "s' = s" by (simp add: resolveCandidate_def)
    then show ?thesis using between_refl[of W s] by auto
  next
    case None
    with assms Inr have tr: "trace s' = trace s @ [GetWork (canonical n) q]"
      by (auto simp: resolveCandidate_def doGetWork_def emit_def cacheCandidate_def
          split: sum.splits)
    have b: "between W s s' [] [canonical n]"
      unfolding between_def using tr by simp
    have w: "workIdsOf [rawId] = [canonical n]" using Inr by (simp add: workIdsOf_def)
    show ?thesis using b w by auto
  qed
qed

lemma tryDownloadPdf_state: "snd (tryDownloadPdf W url s) = emit (Fetch url) s"
  by (simp add: tryDownloadPdf_def doFetch_def split: sum.splits)

lemma tryAcquire_kind:
  assumes "tryAcquire P W c b s = (res, s')"
    and "\<And>url. K (Fetch url)" and "\<And>path content. K (WriteFile path content)"
  shows "extends K s s'"
proof (cases "isOa c \<and> truthy (pdfUrl c)")
  case True
  obtain d s1 where d: "tryDownloadPdf W (the (pdfUrl c)) s = (d, s1)" by fastforce
  have s1: "s1 = emit (Fetch (the (pdfUrl c))) s"
    using tryDownloadPdf_state[of W "the (pdfUrl c)" s] d by simp
  have e1: "extends K s s1" unfolding s1 by (simp add: extends_emit assms(2))
  show ?thesis
    using assms(1) True d e1
    by (auto simp: tryAcquire_def doWriteFile_def Let_def extends_emit_after assms(3)
        split: sum.splits option.splits)
next
  case False
  then show ?thesis
    using assms(1)
    by (auto simp: tryAcquire_def doWriteFile_def Let_def extends_emit assms(3)
        split: option.splits)
qed

lemma acquire_kind:
  assumes "acquire P W c b s = (res, s')"
    and "\<And>url. K (Fetch url)" and "\<And>path content. K (WriteFile path content)"
  shows "extends K s s'"
proof -
  obtain t s1 where t: "tryAcquire P W c b s = (t, s1)" by fastforce
  have e1: "extends K s s1" using tryAcquire_kind[OF t, of K] assms(2,3) by blast
  show ?thesis
    using assms(1) t e1
    by (auto simp: acquire_def doWriteFile_def Let_def extends_emit_after assms(3)
        split: sum.splits option.splits)
qed

lemma tryAcquire_extends:
  "tryAcquire P W c b s = (res, s') \<Longrightarrow> extends loopCall s s'"
  by (rule tryAcquire_kind) simp_all

lemma acquire_extends:
  "acquire P W c b s = (res, s') \<Longrightarrow> extends loopCall s s'"
  by (rule acquire_kind) simp_all

lemma acquire_silent:
  "acquire P W c b s = (res, s') \<Longrightarrow> extends silentCall s s'"
  by (rule acquire_kind) simp_all

lemma uploadAndWait_extends:
  "uploadAndWait W path metadata t s = (u, s') \<Longrightarrow> extends loopCall s s'"
  by (auto simp: uploadAndWait_def doUploadFile_def doWaitForFileProcessed_def
      extends_emit extends_emit_after
      split: sum.splits if_splits)

lemma uploadAndWait_pushed:
  "uploadAndWait W path metadata t s = (u, s') \<Longrightarrow>
     pushed u = (if uploadStatus u = ''completed''
                 then (case uploadedFileId u of None \<Rightarrow> [] | Some f \<Rightarrow> [f]) else [])
     \<and> (uploadStatus u = ''completed'' \<longrightarrow> uploadedFileId u \<noteq> None)"
  by (auto simp: uploadAndWait_def doUploadFile_def doWaitForFileProcessed_def
      split: sum.splits if_splits)

lemma uploadAndWait_between:
  assumes "uploadAndWait W path metadata t s = (u, s')"
  shows "between W s s' (pushed u) []"
proof (cases "uploadFile W (trace s) path metadata")
  case (Inl e)
  with assms have "trace s' = trace s @ [UploadFile path metadata]" "pushed u = []"
    by (auto simp: uploadAndWait_def doUploadFile_def emit_def)
  then show ?thesis using Inl unfolding between_def by simp
next
  case (Inr fileId)
  let ?h = "trace s @ [UploadFile path metadata]"
  have tr: "trace s' = trace s @ [UploadFile path metadata, WaitForFileProcessed fileId t]"
    using assms Inr
    by (auto simp: uploadAndWait_def doUploadFile_def doWaitForFileProcessed_def emit_def
        split: sum.splits if_splits)
  have p: "pushed u = (if waitForFileProcessed W ?h fileId t = Inr ''completed'' then [fileId] else [])"
    using assms Inr
    by (auto simp: uploadAndWait_def doUploadFile_def doWaitForFileProcessed_def emit_def
        split: sum.splits if_splits)
  have a: "answeredUpload W ?h fileId" using Inr by (simp add: answeredUpload_def)
  show ?thesis unfolding between_def using tr p Inr a by simp
qed

lemma processCandidate_Inr:
  assumes "processCandidate P W input rawId s = (Inr (r, ids), s')"
  shows "\<exists>c s1 a s2 u s3.
           resolveCandidate W rawId (case queryText input of None \<Rightarrow> '''' | Some x \<Rightarrow> x) s = (Inr c, s1)
         \<and> acquire P W c (sanitizeFilename P (title c @ ''_'' @ openalexShortId c)) s1 = (Inr a, s2)
         \<and> uploadAndWait W (localPath a)
              \<lparr>meta_source = ''openalex'', meta_openalex_id = openalexId c, meta_doi = doi c,
               meta_title = title c, meta_retrieval_mode = retrievalMode a,
               meta_query = (case queryText input of None \<Rightarrow> '''' | Some x \<Rightarrow> x)\<rparr>
              (fileProcessTimeoutSec input) s2 = (u, s3)
         \<and> s' = emit (Unlink (localPath a)) s3
         \<and> r = \<lparr>openalex_id = openalexId c, record_title = title c,
                 retrieval_mode = retrievalMode a, retrieval_note = retrievalNote a,
                 openwebui_file_id = uploadedFileId u, openwebui_status = uploadStatus u,
                 record_error = uploadError u\<rparr>
         \<and> ids = pushed u"
  using assms
  by (auto simp: processCandidate_def Let_def doUnlink_def split: sum.splits prod.splits)

lemma processCandidate_extends:
  assumes "processCandidate P W input rawId s = (res, s')"
  shows "extends loopCall s s'"
proof -
  let ?q = "case queryText input of None \<Rightarrow> '''' | Some x \<Rightarrow> x"
  obtain rc s1 where rc: "resolveCandidate W rawId ?q s = (rc, s1)" by fastforce
  have e1: "extends loopCall s s1" using resolveCandidate_extends[OF rc] .
  show ?thesis
  proof (cases rc)
    case (Inl e)
    with assms rc e1 show ?thesis by (simp add: processCandidate_def Let_def)
  next
    case (Inr c)
    let ?b = "sanitizeFilename P (title c @ ''_'' @ openalexShortId c)"
    obtain ra s2 where ra: "acquire P W c ?b s1 = (ra, s2)" by fastforce
    have e2: "extends loopCall s s2" using e1 acquire_extends[OF ra] extends_trans by blast
    show ?thesis
    proof (cases ra)
      case (Inl e)
      with assms rc Inr ra e2 show ?thesis by (simp add: processCandidate_def Let_def)
    next
      case a: (Inr a)
      let ?m = "\<lparr>meta_source = ''openalex'', meta_openalex_id = openalexId c, meta_doi = doi c,
               meta_title = title c, meta_retrieval_mode = retrievalMode a, meta_query = ?q\<rparr>"
      obtain u s3 where u: "uploadAndWait W (localPath a) ?m (fileProcessTimeoutSec input) s2 = (u, s3)"
        by fastforce
      have e3: "extends loopCall s s3" using e2 uploadAndWait_extends[OF u] extends_trans by blast
      have "s' = emit (Unlink (localPath a)) s3"
        using assms rc Inr ra a u by (simp add: processCandidate_def Let_def doUnlink_def)
      then show ?thesis using e3 by (simp add: extends_emit_after)
    qed
  qed
qed

lemma processCandidate_between:
  assumes "processCandidate P W input rawId s = (res, s')"
  shows "\<exists>ids works. between W s s' ids works
           \<and> set works \<subseteq> set (workIdsOf [rawId]) \<and> length works \<le> 1
           \<and> (\<forall>r newIds. res = Inr (r, newIds) \<longrightarrow> newIds = ids)"
proof -
  let ?q = "case queryText input of None \<Rightarrow> '''' | Some x \<Rightarrow> x"
  obtain rc s1 where rc: "resolveCandidate W rawId ?q s = (rc, s1)" by fastforce
  from resolveCandidate_between[OF rc] obtain works where
    b1: "between W s s1 [] works" and w: "set works \<subseteq> set (workIdsOf [rawId])" "length works \<le> 1"
    by blast
  show ?thesis
  proof (cases rc)
    case (Inl e)
    with assms rc have "res = Inl e" "s' = s1" by (simp_all add: processCandidate_def Let_def)
    with b1 w show ?thesis by blast
  next
    case (Inr c)
    let ?b = "sanitizeFilename P (title c @ ''_'' @ openalexShortId c)"
    obtain ra s2 where ra: "acquire P W c ?b s1 = (ra, s2)" by fastforce
    have b2: "between W s s2 [] works"
      using between_silent_after[OF b1 acquire_silent[OF ra]] .
    show ?thesis
    proof (cases ra)
      case (Inl e)
      with assms rc Inr ra have "res = Inl e" "s' = s2"
        by (simp_all add: processCandidate_def Let_def)
      with b2 w show ?thesis by blast
    next
      case a: (Inr a)
      let ?m = "\<lparr>meta_source = ''openalex'', meta_openalex_id = openalexId c, meta_doi = doi c,
               meta_title = title c, meta_retrieval_mode = retrievalMode a, meta_query = ?q\<rparr>"
      obtain u s3 where u: "uploadAndWait W (localPath a) ?m (fileProcessTimeoutSec input) s2 = (u, s3)"
        by fastforce
      have b3: "between W s s3 (pushed u) works"
        using between_trans[OF b2 uploadAndWait_between[OF u]] by simp
      have s': "s' = emit (Unlink (localPath a)) s3"
        using assms rc Inr ra a u by (simp add: processCandidate_def Let_def doUnlink_def)
      have b4: "between W s s' (pushed u) works"
        unfolding s' using between_silent_after[OF b3 extends_emit[of silentCall]] by simp
      have "\<forall>r newIds. res = Inr (r, newIds) \<longrightarrow> newIds = pushed u"
        using assms rc Inr ra a u by (auto simp: processCandidate_def Let_def doUnlink_def)
      with b4 w show ?thesis by blast
    qed
  qed
qed

lemma completedIds_append: "completedIds (xs @ ys) = completedIds xs @ completedIds ys"
  by (simp add: completedIds_def)

lemma processCandidate_pushed:
  assumes "processCandidate P W input rawId s = (Inr (r, ids), s')"
  shows "ids = completedIds [r]"
    and "openwebui_status r = ''completed'' \<longrightarrow> openwebui_file_id r \<noteq> None"
proof -
  from processCandidate_Inr[OF assms] obtain c :: candidate and a :: acquired and u :: uploaded
    and s2 s3 where
    u: "uploadAndWait W (localPath a)
              \<lparr>meta_source = ''openalex'', meta_openalex_id = openalexId c, meta_doi = doi c,
               meta_title = title c, meta_retrieval_mode = retrievalMode a,
               meta_query = (case queryText input of None \<Rightarrow> '''' | Some x \<Rightarrow> x)\<rparr>
              (fileProcessTimeoutSec input) s2 = (u, s3)"
    and r: "r = \<lparr>openalex_id = openalexId c, record_title = title c,
                 retrieval_mode = retrievalMode a, retrieval_note = retrievalNote a,
                 openwebui_file_id = uploadedFileId u, openwebui_status = uploadStatus u,
                 record_error = uploadError u\<rparr>"
    and ids: "ids = pushed u"
    by blast
  from uploadAndWait_pushed[OF u] show "ids = completedIds [r]"
    by (auto simp: ids r completedIds_def split: option.splits)
  from uploadAndWait_pushed[OF u] show "openwebui_status r = ''completed'' \<longrightarrow> openwebui_file_id r \<noteq> None"
    by (simp add: r)
qed

lemma roundsFor_Cons:
  assumes "roundsFor P W input s (rawId # ids) rs"
  shows "\<exists>r rest newIds s1. rs = r # rest
           \<and> processCandidate P W input rawId s = (Inr (r, newIds), s1)
           \<and> roundsFor P W input s1 ids rest"
proof (cases rs)
  case Nil
  with assms show ?thesis by simp
next
  case (Cons r rest)
  obtain x s1 where pc: "processCandidate P W input rawId s = (x, s1)" by fastforce
  show ?thesis
  proof (cases x)
    case (Inl e)
    with assms Cons pc show ?thesis by simp
  next
    case (Inr p)
    obtain r' newIds where p: "p = (r', newIds)" by (cases p)
    with assms Cons pc Inr show ?thesis by simp
  qed
qed

lemma roundsFor_length: "roundsFor P W input s ids rs \<Longrightarrow> length rs = length ids"
proof (induction ids arbitrary: s rs)
  case Nil
  then show ?case by simp
next
  case (Cons rawId ids)
  from roundsFor_Cons[OF Cons.prems] obtain r rest s1 where
    "rs = r # rest" "roundsFor P W input s1 ids rest" by blast
  with Cons.IH[of s1 rest] show ?case by simp
qed

lemma processCandidates_acc:
  "processCandidates P W input ids (processed, succ) s = (Inr (processed', succ'), s') \<Longrightarrow>
     \<exists>new. processed' = processed @ new \<and> succ' = succ @ completedIds new
       \<and> roundsFor P W input s ids new \<and> list_all hasFile new"
proof (induction ids arbitrary: processed succ s)
  case Nil
  then show ?case by (simp add: completedIds_def)
next
  case (Cons rawId rest)
  from Cons.prems obtain r newIds s1 where
    one: "processCandidate P W input rawId s = (Inr (r, newIds), s1)"
    and rest: "processCandidates P W input rest (processed @ [r], succ @ newIds) s1 = (Inr (processed', succ'), s')"
    by (auto split: sum.splits prod.splits)
  from Cons.IH[OF rest] obtain new where
    new: "processed' = (processed @ [r]) @ new" "succ' = (succ @ newIds) @ completedIds new"
      "roundsFor P W input s1 rest new" "list_all hasFile new"
    by blast
  have ids: "newIds = completedIds [r]" using processCandidate_pushed(1)[OF one] .
  have hf: "hasFile r" using processCandidate_pushed(2)[OF one] by (simp add: hasFile_def)
  have "processed' = processed @ (r # new)" using new(1) by simp
  moreover have "succ' = succ @ completedIds (r # new)"
    using new(2) ids completedIds_append[of "[r]" new] by simp
  moreover have "roundsFor P W input s (rawId # rest) (r # new)" using one new(3) by simp
  moreover have "list_all hasFile (r # new)" using hf new(4) by simp
  ultimately show ?case by blast
qed

lemma processCandidates_extends:
  "processCandidates P W input ids acc s = (res, s') \<Longrightarrow> extends loopCall s s'"
proof (induction ids arbitrary: acc s)
  case Nil
  then show ?case by (simp add: extends_refl)
next
  case (Cons rawId rest)
  obtain processed succ where acc: "acc = (processed, succ)" by (cases acc)
  obtain r1 s1 where one: "processCandidate P W input rawId s = (r1, s1)" by fastforce
  have e1: "extends loopCall s s1" using processCandidate_extends[OF one] .
  show ?case
  proof (cases r1)
    case (Inl e)
    with Cons.prems acc one e1 show ?thesis by simp
  next
    case (Inr p)
    obtain r newIds where p: "p = (r, newIds)" by (cases p)
    from Cons.prems acc one Inr p
    have "processCandidates P W input rest (processed @ [r], succ @ newIds) s1 = (res, s')" by simp
    from Cons.IH[OF this] e1 show ?thesis using extends_trans by blast
  qed
qed

lemma processCandidates_between:
  "processCandidates P W input ids (processed, succ) s = (res, s') \<Longrightarrow>
     \<exists>new works. between W s s' new works
       \<and> set works \<subseteq> set (workIdsOf ids) \<and> length works \<le> length ids
       \<and> (\<forall>processed' succ'. res = Inr (processed', succ') \<longrightarrow> succ' = succ @ new)"
proof (induction ids arbitrary: processed succ s)
  case Nil
  then show ?case using between_refl[of W s] by auto
next
  case (Cons rawId rest)
  obtain r1 s1 where one: "processCandidate P W input rawId s = (r1, s1)" by fastforce
  from processCandidate_between[OF one] obtain ids1 works1 where
    b1: "between W s s1 ids1 works1"
    and w1: "set works1 \<subseteq> set (workIdsOf [rawId])" "length works1 \<le> 1"
    and p1: "\<forall>r newIds. r1 = Inr (r, newIds) \<longrightarrow> newIds = ids1"
    by blast
  have sub1: "set works1 \<subseteq> set (workIdsOf (rawId # rest))"
    using w1(1) workIdsOf_Cons[of rawId rest] by auto
  show ?case
  proof (cases r1)
    case (Inl e)
    with Cons.prems one have "res = Inl e" "s' = s1" by simp_all
    with b1 sub1 w1(2) show ?thesis by fastforce
  next
    case (Inr p)
    obtain r newIds where p: "p = (r, newIds)" by (cases p)
    have n: "newIds = ids1" using p1 Inr p by simp
    from Cons.prems one Inr p
    have rest: "processCandidates P W input rest (processed @ [r], succ @ newIds) s1 = (res, s')"
      by simp
    from Cons.IH[OF rest] obtain new works where
      b2: "between W s1 s' new works"
      and w2: "set works \<subseteq> set (workIdsOf rest)" "length works \<le> length rest"
      and p2: "\<forall>processed' succ'. res = Inr (processed', succ') \<longrightarrow> succ' = (succ @ newIds) @ new"
      by blast
    have b: "between W s s' (ids1 @ new) (works1 @ works)" using between_trans[OF b1 b2] .
    have sub: "set (works1 @ works) \<subseteq> set (workIdsOf (rawId # rest))"
      using sub1 w2(1) workIdsOf_Cons[of rawId rest] by auto
    have len: "length (works1 @ works) \<le> length (rawId # rest)" using w1(2) w2(2) by simp
    have "\<forall>processed' succ'. res = Inr (processed', succ') \<longrightarrow> succ' = succ @ (ids1 @ new)"
      using p2 n by simp
    with b sub len show ?thesis by blast
  qed
qed

lemma length_completedIds:
  "list_all hasFile rs \<Longrightarrow>
     length (completedIds rs) = length (filter (\<lambda>r. openwebui_status r = ''completed'') rs)"
  by (induction rs) (auto simp: completedIds_def hasFile_def split: option.splits)

lemma attachCalls_append: "attachCalls (a @ b) = attachCalls a @ attachCalls b"
  by (induction a rule: attachCalls.induct) auto

lemma attachCalls_loop: "list_all loopCall evs \<Longrightarrow> attachCalls evs = []"
  by (induction evs rule: attachCalls.induct) auto

lemma getOrCreate_trace:
  "getOrCreateKnowledgeBase W p s = (res, s1) \<Longrightarrow>
     trace s1 = trace s @ [SearchKnowledgeBases (kp_name p)]
     \<or> trace s1 = trace s @ [SearchKnowledgeBases (kp_name p),
          CreateKnowledgeBase (kp_name p) (kp_description p)
            (if kp_makePublic p then AcNull else AcObject [])]"
  by (auto simp: getOrCreateKnowledgeBase_def doSearchKnowledgeBases_def createKnowledgeBase_def
      emit_def Let_def split: sum.splits option.splits)

lemma finishIngest_trace:
  assumes "finishIngest W input (processed, succ) s = (res, s')"
  shows "\<exists>evs. trace s' = trace s @ evs \<and> list_all silentCall evs \<and>
     (case res of
        Inr out \<Rightarrow>
          attachCalls evs = (if succ = [] then [] else [(info_id (knowledge_base out), succ)])
          \<and> results out = processed
          \<and> uploaded_success_count out = int (length succ)
          \<and> uploaded_failed_count out = int (length processed) - int (length succ)
      | Inl e \<Rightarrow> attachCalls evs = [] \<or> (\<exists>kb. attachCalls evs = [(kb, succ)] \<and> succ \<noteq> []))"
proof -
  obtain g s1 where g: "getOrCreateKnowledgeBase W (paramsOf input) s = (g, s1)" by fastforce
  from getOrCreate_trace[OF g] obtain kbEvs where
    k: "trace s1 = trace s @ kbEvs" "attachCalls kbEvs = []" "list_all silentCall kbEvs"
    by auto
  show ?thesis
  proof (cases g)
    case (Inl e)
    with assms g have "res = Inl e" "s' = s1"
      by (auto simp: finishIngest_def paramsOf_def Let_def)
    with k show ?thesis by auto
  next
    case (Inr p)
    obtain kb isNew where p: "p = (kb, isNew)" by (cases p)
    show ?thesis
    proof (cases "succ = []")
      case True
      with assms g Inr p k show ?thesis
        by (auto simp: finishIngest_def paramsOf_def Let_def)
    next
      case False
      with assms g Inr p
      have s': "trace s' = trace s1 @ [AddFilesToKnowledgeBase (kb_id kb) succ]"
        by (auto simp: finishIngest_def paramsOf_def Let_def addFilesToKnowledgeBase_def emit_def
            split: option.splits)
      have tr: "trace s' = trace s @ (kbEvs @ [AddFilesToKnowledgeBase (kb_id kb) succ])"
        using s' k(1) by simp
      have at: "attachCalls (kbEvs @ [AddFilesToKnowledgeBase (kb_id kb) succ]) = [(kb_id kb, succ)]"
        using k(2) by (simp add: attachCalls_append)
      have si: "list_all silentCall (kbEvs @ [AddFilesToKnowledgeBase (kb_id kb) succ])"
        using k(3) by simp
      show ?thesis
      proof (cases res)
        case (Inl e)
        with tr at si False show ?thesis by auto
      next
        case out: (Inr out)
        with assms g Inr p False
        have "info_id (knowledge_base out) = kb_id kb" "results out = processed"
          "uploaded_success_count out = int (length succ)"
          "uploaded_failed_count out = int (length processed) - int (length succ)"
          by (auto simp: finishIngest_def paramsOf_def Let_def addFilesToKnowledgeBase_def
              split: option.splits)
        with out tr at si False show ?thesis by auto
      qed
    qed
  qed
qed

lemma ingest_cases:
  "(\<exists>e. ingestToOpenWebUITool P W args s = (Inl e, s))
   \<or> (\<exists>e. ingestToOpenWebUITool P W args s = (Inl e, emit (Mkdir (scratchDir P)) s))
   \<or> (\<exists>input. parseIngestArgs args = Inr input \<and>
        (case processCandidates P W input (take (maxPapers input) (setOf (candidateIds input)))
                ([], []) (emit (Mkdir (scratchDir P)) s) of
           (Inl e, s2) \<Rightarrow> ingestToOpenWebUITool P W args s = (Inl e, s2)
         | (Inr acc, s2) \<Rightarrow> ingestToOpenWebUITool P W args s = finishIngest W input acc s2))"
  by (auto simp: ingestToOpenWebUITool_def doMkdir_def Let_def
      split: sum.splits option.splits prod.splits)

lemma attachCalls_Mkdir_loop:
  "extends loopCall (emit (Mkdir d) s) s2 \<Longrightarrow>
     \<exists>evs. trace s2 = trace s @ evs \<and> attachCalls evs = []"
  unfolding extends_def emit_def
  by (auto simp: attachCalls_append attachCalls_loop)

lemma ingest_run:
  "\<exists>evs. trace (snd (ingestToOpenWebUITool P W args s)) = trace s @ evs
     \<and> polledIds evs = uploadedIds W (trace s) evs
     \<and> (case fst (ingestToOpenWebUITool P W args s) of
        Inr out \<Rightarrow>
          attachCalls evs =
            (if completedIds (results out) = [] then []
             else [(info_id (knowledge_base out), completedIds (results out))])
          \<and> completedIds (results out) = completedUploads W (trace s) evs
          \<and> list_all hasFile (results out)
          \<and> uploaded_success_count out = int (length (completedIds (results out)))
          \<and> uploaded_failed_count out =
              int (length (results out)) - int (length (completedIds (results out)))
          \<and> (\<exists>input. parseIngestArgs args = Inr input
                \<and> roundsFor P W input (emit (Mkdir (scratchDir P)) s)
                     (take (maxPapers input) (setOf (candidateIds input))) (results out)
                \<and> set (getWorkCalls evs)
                     \<subseteq> set (workIdsOf (take (maxPapers input) (setOf (candidateIds input))))
                \<and> length (getWorkCalls evs)
                     \<le> length (take (maxPapers input) (setOf (candidateIds input))))
      | Inl e \<Rightarrow>
          attachCalls evs = []
          \<or> (\<exists>kb. attachCalls evs = [(kb, completedUploads W (trace s) evs)]
                \<and> completedUploads W (trace s) evs \<noteq> []))"
proof -
  show ?thesis using ingest_cases[of P W args s]
  proof (elim disjE exE conjE)
    fix e assume "ingestToOpenWebUITool P W args s = (Inl e, s)"
    then show ?thesis by simp
  next
    fix e assume "ingestToOpenWebUITool P W args s = (Inl e, emit (Mkdir (scratchDir P)) s)"
    then show ?thesis by (simp add: emit_def)
  next
    fix input
    assume c: "parseIngestArgs args = Inr input"
        "(case processCandidates P W input (take (maxPapers input) (setOf (candidateIds input)))
                ([], []) (emit (Mkdir (scratchDir P)) s) of
           (Inl e, s2) \<Rightarrow> ingestToOpenWebUITool P W args s = (Inl e, s2)
         | (Inr acc, s2) \<Rightarrow> ingestToOpenWebUITool P W args s = finishIngest W input acc s2)"
    let ?sel = "take (maxPapers input) (setOf (candidateIds input))"
    let ?s1 = "emit (Mkdir (scratchDir P)) s"
    obtain l s2 where l: "processCandidates P W input ?sel ([], []) ?s1 = (l, s2)"
      by fastforce
    from attachCalls_Mkdir_loop[OF processCandidates_extends[OF l]] obtain pre where
      pre: "trace s2 = trace s @ pre" "attachCalls pre = []" by blast
    from processCandidates_between[OF l] obtain new works where
      b1: "between W ?s1 s2 new works"
      and w: "set works \<subseteq> set (workIdsOf ?sel)" "length works \<le> length ?sel"
      and sn: "\<forall>processed' succ'. l = Inr (processed', succ') \<longrightarrow> succ' = [] @ new"
      by blast
    have b0: "between W s ?s1 [] []"
      by (rule between_silent) (simp add: extends_emit)
    have b2: "between W s s2 new works" using between_trans[OF b0 b1] by simp
    show ?thesis
    proof (cases l)
      case (Inl e)
      with c(2) l have run: "ingestToOpenWebUITool P W args s = (Inl e, s2)" by simp
      have "polledIds pre = uploadedIds W (trace s) pre"
        using between_unique(1)[OF b2 pre(1)] .
      with run pre show ?thesis by simp
    next
      case (Inr acc)
      obtain processed succ where acc: "acc = (processed, succ)" by (cases acc)
      from processCandidates_acc[OF l[unfolded Inr acc]] have
        new: "succ = completedIds processed" "roundsFor P W input ?s1 ?sel processed"
          "list_all hasFile processed"
        by auto
      have succ: "succ = new" using sn Inr acc by simp
      have run: "ingestToOpenWebUITool P W args s = finishIngest W input (processed, succ) s2"
        using c(2) l Inr acc by simp
      obtain res s' where f: "finishIngest W input (processed, succ) s2 = (res, s')" by fastforce
      from finishIngest_trace[OF f] obtain evs where
        evs: "trace s' = trace s2 @ evs" "list_all silentCall evs"
          "(case res of
              Inr out \<Rightarrow>
                attachCalls evs = (if succ = [] then [] else [(info_id (knowledge_base out), succ)])
                \<and> results out = processed
                \<and> uploaded_success_count out = int (length succ)
                \<and> uploaded_failed_count out = int (length processed) - int (length succ)
            | Inl e \<Rightarrow> attachCalls evs = [] \<or> (\<exists>kb. attachCalls evs = [(kb, succ)] \<and> succ \<noteq> []))"
        by blast
      have tr: "trace s' = trace s @ (pre @ evs)" using evs(1) pre(1) by simp
      have at: "attachCalls (pre @ evs) = attachCalls evs" using pre(2) by (simp add: attachCalls_append)
      have "extends silentCall s2 s'" unfolding extends_def using evs(1,2) by blast
      from between_silent_after[OF b2 this] have b3: "between W s s' new works" .
      have u: "polledIds (pre @ evs) = uploadedIds W (trace s) (pre @ evs)"
        and pc: "completedUploads W (trace s) (pre @ evs) = succ"
        and gw: "getWorkCalls (pre @ evs) = works"
        using between_unique[OF b3 tr] succ by simp_all
      show ?thesis
      proof (cases res)
        case (Inl e)
        have "attachCalls (pre @ evs) = []
              \<or> (\<exists>kb. attachCalls (pre @ evs) = [(kb, completedUploads W (trace s) (pre @ evs))]
                    \<and> completedUploads W (trace s) (pre @ evs) \<noteq> [])"
          using evs(3) Inl at pc by simp
        with Inl tr u run f show ?thesis by (intro exI[of _ "pre @ evs"]) simp
      next
        case out: (Inr out)
        have o: "attachCalls (pre @ evs) =
                   (if completedIds (results out) = [] then []
                    else [(info_id (knowledge_base out), completedIds (results out))])"
          "completedIds (results out) = completedUploads W (trace s) (pre @ evs)"
          "list_all hasFile (results out)"
          "uploaded_success_count out = int (length (completedIds (results out)))"
          "uploaded_failed_count out =
              int (length (results out)) - int (length (completedIds (results out)))"
          "roundsFor P W input ?s1 ?sel (results out)"
          using evs(3) out at pc new by simp_all
        have g: "set (getWorkCalls (pre @ evs)) \<subseteq> set (workIdsOf ?sel)"
          "length (getWorkCalls (pre @ evs)) \<le> length ?sel"
          using gw w by simp_all
        show ?thesis
          using out tr u run f o g c(1) by (intro exI[of _ "pre @ evs"]) simp
      qed
    qed
  qed
qed

section \<open>Runs in the example worlds\<close>

lemma decimal_404: "decimal 404 = ''404''" by code_simp
lemma decimal_0: "decimal 0 = ''0''" by code_simp

lemma normalize_W1: "normalizeOpenAlexId ''W1'' = Inr \<lparr>canonical = ''https://openalex.org/W1'', short = ''W1''\<rparr>"
  by code_simp
lemma normalize_W2: "normalizeOpenAlexId ''W2'' = Inr \<lparr>canonical = ''https://openalex.org/W2'', short = ''W2''\<rparr>"
  by code_simp
lemma normalize_W3: "normalizeOpenAlexId ''W3'' = Inr \<lparr>canonical = ''https://openalex.org/W3'', short = ''W3''\<rparr>"
  by code_simp
lemma sanitize_W1: "sanitizeFilename demoPlatform ''Paper W1_W1'' = ''Paper_W1_W1''"
  by code_simp
lemma sanitize_W2: "sanitizeFilename demoPlatform ''Paper W2_W2'' = ''Paper_W2_W2''"
  by code_simp
lemma sanitize_W3: "sanitizeFilename demoPlatform ''Paper W3_W3'' = ''Paper_W3_W3''"
  by code_simp
lemma ct_pdf: "includesStr (toLowerCase ''application/pdf'') ''pdf''"
  by code_simp
lemma pdf_demo: "pdfOfResponse (pdfResponse bytes) = Inr bytes"
  by (simp add: pdfOfResponse_def pdfResponse_def ok_def maxPdfBytes_def ct_pdf)
lemma pdf_404: "pdfOfResponse notFoundResponse = Inl (Error ''HTTP 404 Not Found'')"
  by (simp add: pdfOfResponse_def notFoundResponse_def ok_def decimal_404)
lemma parse_demo:
  "parseIngestArgs (demoArgs ids n) =
     (if \<not> list_all (\<lambda>i. length i \<ge> 1) ids \<or> length ids < 1 \<or> length ids > 30
      then Inl (ZodError ''candidateIds'')
      else if n < 1 \<or> n > 30 then Inl (ZodError ''maxPapers'')
      else Inr \<lparr>candidateIds = ids, queryText = None, knowledgeBaseName = ''Public OA Scholar KB'',
           knowledgeBaseDescription = ''OA-first literature corpus. Non-OA papers are stored as abstract-only notes.'',
           makePublic = True, maxPapers = nat n, fileProcessTimeoutSec = 900,
           openwebuiBaseUrl = None, openwebuiApiKey = None\<rparr>)"
  by (simp add: parseIngestArgs_def demoArgs_def Let_def)
lemma client_demo:
  "newOpenWebUIClient demoPlatform None None = Inr \<lparr>baseUrl = ''http://localhost:3000'', apiKey = ''sk-demo''\<rparr>"
  by (simp add: newOpenWebUIClient_def demoPlatform_def orElse_def trim_def stripTrailingSlashes_def isSpace_def code_def)
lemma store_name:
  "includesStr (toLowerCase ''Public OA Scholar KB'') (toLowerCase ''Public OA Scholar KB'')"
  by code_simp
lemma same_name_demo:
  "sameName ''Public OA Scholar KB'' \<lparr>kb_id = i, kb_name = ''Public OA Scholar KB'', kb_description = d, kb_access_control = a\<rparr>"
  by (simp add: sameName_def)
lemma ends_pdf:
  "endsWith ''/tmp/mcp-scholar-oa/Paper_W1_W1.pdf'' ''.pdf''"
  "\<not> endsWith ''/tmp/mcp-scholar-oa/Paper_W1_W1.md'' ''.pdf''"
  by (simp_all add: endsWith_def)

lemma platform_demo:
  "scratchDir demoPlatform = ''/tmp/mcp-scholar-oa''"
  "scratchPath demoPlatform n = ''/tmp/mcp-scholar-oa/'' @ n"
  by (simp_all add: demoPlatform_def)

lemmas world_defs = demoWorld_def fullDiskWorld_def readOnlyWorld_def hugeWorld_def platform_demo
  emptyState_def demoCandidate_def storeSearch_def storeCreate_def
lemmas step_defs = doMkdir_def doGetWork_def doFetch_def doWriteFile_def doUploadFile_def
  doWaitForFileProcessed_def doUnlink_def doSearchKnowledgeBases_def emit_def
lemmas tool_defs = ingestToOpenWebUITool_def finishIngest_def processCandidate_def acquire_def
  tryAcquire_def uploadAndWait_def resolveCandidate_def cacheCandidate_def tryDownloadPdf_def
  getOrCreateKnowledgeBase_def createKnowledgeBase_def addFilesToKnowledgeBase_def orElse_def
  truthy_def
lemmas eval_facts = parse_demo client_demo normalize_W1 normalize_W2 normalize_W3
  sanitize_W1 sanitize_W2 sanitize_W3 pdf_demo pdf_404 decimal_0 store_name same_name_demo ends_pdf
  downloadedNote_def unavailableNote_def failedNote_def demoKb_def demoRecord1_def demoRecord2_def
  demoRecord3_def Let_def

lemma demo_capped:
  "fst (ingestToOpenWebUITool demoPlatform demoWorld (demoArgs [''W1'', ''W2'', ''W3''] 1) emptyState) =
     Inr \<lparr>knowledge_base = demoKb, uploaded_success_count = 1, uploaded_failed_count = 0,
          warning = None, results = [demoRecord1 Pdf downloadedNote]\<rparr>"
  by (simp add: tool_defs step_defs world_defs eval_facts)

lemma demo_three:
  "fst (ingestToOpenWebUITool demoPlatform demoWorld (demoArgs [''W1'', ''W2'', ''W3'', ''W1''] 10) emptyState) =
     Inr \<lparr>knowledge_base = demoKb, uploaded_success_count = 1, uploaded_failed_count = 2,
          warning = None, results = [demoRecord1 Pdf downloadedNote, demoRecord2, demoRecord3]\<rparr>"
  by (simp add: tool_defs step_defs world_defs eval_facts)

lemma demo_three_attach:
  "attachCalls (trace (snd (ingestToOpenWebUITool demoPlatform demoWorld
      (demoArgs [''W1'', ''W2'', ''W3'', ''W1''] 10) emptyState))) = [(''kb-0'', [''file-W1''])]"
  by (simp add: tool_defs step_defs world_defs eval_facts)

lemma demo_flaky:
  "fst (ingestToOpenWebUITool demoPlatform flakyWorld (demoArgs [''W1'', ''W2'', ''W3''] 10) emptyState) =
     Inr \<lparr>knowledge_base = demoKb, uploaded_success_count = 1, uploaded_failed_count = 2,
          warning = None, results = [demoRecord1 Pdf downloadedNote, flakyRecord2, flakyRecord3]\<rparr>"
  by (simp add: tool_defs step_defs world_defs eval_facts flakyWorld_def flakyRecord2_def
      flakyRecord3_def unreachable_def)

lemma demo_full_disk:
  "fst (ingestToOpenWebUITool demoPlatform fullDiskWorld (demoArgs [''W1''] 10) emptyState) =
     Inr \<lparr>knowledge_base = demoKb, uploaded_success_count = 1, uploaded_failed_count = 0,
          warning = None,
          results = [demoRecord1 AbstractOnly
            ''PDF download failed (ENOSPC: no space left on device, write); stored abstract-only note.'']\<rparr>"
  by (simp add: tool_defs step_defs world_defs eval_facts)

lemma demo_read_only:
  "fst (ingestToOpenWebUITool demoPlatform readOnlyWorld (demoArgs [''W2''] 10) emptyState) =
     Inl (SystemError ''EROFS: read-only file system, open'')"
  by (simp add: tool_defs step_defs world_defs eval_facts)

lemma download_full_disk:
  "fst (tryDownloadPdf fullDiskWorld ''https://example.org/W1.pdf'' emptyState) = Inr ''%PDF-1.4 demo''"
  by (simp add: tool_defs step_defs world_defs eval_facts)

lemma download_read_only:
  "fst (tryDownloadPdf readOnlyWorld ''https://example.org/W2.pdf'' emptyState) =
     Inl (Error ''HTTP 404 Not Found'')"
  by (simp add: tool_defs step_defs world_defs eval_facts)

lemma download_huge:
  "fst (tryDownloadPdf hugeWorld ''https://example.org/huge.pdf'' emptyState) = Inr hugePdf"
  by (simp add: tool_defs step_defs world_defs eval_facts)

lemma length_huge: "length hugePdf = maxPdfBytes + 8"
  by (simp add: hugePdf_def)
section \<open>The PDF download\<close>

lemma pdfOfResponse_Inl_iff:
  "(\<exists>e. pdfOfResponse r = Inl e) \<longleftrightarrow>
     (\<not> ok r \<or> spec_declaredLength r > maxPdfBytes
      \<or> (case body r of Inl e \<Rightarrow> True | Inr raw \<Rightarrow> \<not> spec_indicatesPdf r raw))"
  by (auto simp: pdfOfResponse_def spec_declaredLength_def spec_indicatesPdf_def Let_def
      split: sum.splits option.splits)

lemma pdfOfResponse_Inr: "pdfOfResponse r = Inr raw \<Longrightarrow> body r = Inr raw"
  by (auto simp: pdfOfResponse_def Let_def split: sum.splits if_splits)

lemma pdfOfResponse_not_ok:
  "\<not> ok r \<Longrightarrow> pdfOfResponse r = Inl (Error (''HTTP '' @ decimal (status r) @ '' '' @ statusText r))"
  by (simp add: pdfOfResponse_def)

text \<open>
  C5, as amended.  \<^verbatim>\<open>tryDownloadPdf\<close> makes one request and throws exactly when the request
  itself fails, or the HTTP status is not in 200-299 (with the message "HTTP", status and
  status text), or the length declared by the content-length header exceeds 80 MiB, or
  reading the body fails, or neither the content type mentions "pdf" nor the first four
  bytes, read as 7-bit ASCII, are "%PDF"; otherwise it returns the bytes of the body.  The
  length of the body itself is never measured.
\<close>

theorem tryDownloadPdf_spec:
  "((\<exists>e. fst (tryDownloadPdf W url s) = Inl e) \<longleftrightarrow>
      (case fetch W (trace s) url of
         Inl e \<Rightarrow> True
       | Inr r \<Rightarrow> \<not> ok r \<or> spec_declaredLength r > maxPdfBytes
                 \<or> (case body r of Inl e \<Rightarrow> True | Inr raw \<Rightarrow> \<not> spec_indicatesPdf r raw)))
   \<and> (\<forall>raw. fst (tryDownloadPdf W url s) = Inr raw \<longrightarrow>
         (\<exists>r. fetch W (trace s) url = Inr r \<and> body r = Inr raw))
   \<and> (\<forall>r. fetch W (trace s) url = Inr r \<and> \<not> ok r \<longrightarrow>
         fst (tryDownloadPdf W url s) =
           Inl (Error (''HTTP '' @ decimal (status r) @ '' '' @ statusText r)))
   \<and> snd (tryDownloadPdf W url s) = emit (Fetch url) s"
proof -
  have a: "(\<exists>e. fst (tryDownloadPdf W url s) = Inl e) \<longleftrightarrow>
      (case fetch W (trace s) url of
         Inl e \<Rightarrow> True
       | Inr r \<Rightarrow> \<not> ok r \<or> spec_declaredLength r > maxPdfBytes
                 \<or> (case body r of Inl e \<Rightarrow> True | Inr raw \<Rightarrow> \<not> spec_indicatesPdf r raw))"
    using pdfOfResponse_Inl_iff
    by (cases "fetch W (trace s) url") (simp_all add: tryDownloadPdf_def doFetch_def)
  have b: "\<forall>raw. fst (tryDownloadPdf W url s) = Inr raw \<longrightarrow>
         (\<exists>r. fetch W (trace s) url = Inr r \<and> body r = Inr raw)"
    using pdfOfResponse_Inr
    by (cases "fetch W (trace s) url") (auto simp: tryDownloadPdf_def doFetch_def)
  have c: "\<forall>r. fetch W (trace s) url = Inr r \<and> \<not> ok r \<longrightarrow>
         fst (tryDownloadPdf W url s) =
           Inl (Error (''HTTP '' @ decimal (status r) @ '' '' @ statusText r))"
    by (auto simp: tryDownloadPdf_def doFetch_def pdfOfResponse_not_ok)
  show ?thesis using a b c tryDownloadPdf_state by blast
qed

theorem tryDownloadPdf_spec_witness:
  "fetch demoWorld (trace emptyState) ''https://example.org/W2.pdf'' = Inr notFoundResponse
   \<and> \<not> ok notFoundResponse
   \<and> fst (tryDownloadPdf demoWorld ''https://example.org/W2.pdf'' emptyState) =
       Inl (Error ''HTTP 404 Not Found'')
   \<and> fst (tryDownloadPdf demoWorld ''https://example.org/W1.pdf'' emptyState) = Inr ''%PDF-1.4 demo''"
proof -
  have f: "fetch demoWorld (trace emptyState) ''https://example.org/W2.pdf'' = Inr notFoundResponse"
    by (simp add: demoWorld_def)
  have n: "\<not> ok notFoundResponse"
    by (simp add: ok_def notFoundResponse_def)
  from tryDownloadPdf_spec[of demoWorld "''https://example.org/W2.pdf''" emptyState] f n
  have "fst (tryDownloadPdf demoWorld ''https://example.org/W2.pdf'' emptyState) =
      Inl (Error (''HTTP '' @ decimal (status notFoundResponse) @ '' '' @ statusText notFoundResponse))"
    by blast
  then have e: "fst (tryDownloadPdf demoWorld ''https://example.org/W2.pdf'' emptyState) =
      Inl (Error ''HTTP 404 Not Found'')"
    by (simp add: notFoundResponse_def decimal_404)
  have g: "fst (tryDownloadPdf demoWorld ''https://example.org/W1.pdf'' emptyState) = Inr ''%PDF-1.4 demo''"
    by (simp add: tool_defs step_defs world_defs eval_facts)
  show ?thesis using f n e g by blast
qed

text \<open>
  C5, as stated, fails: a body of more than 80 MiB that comes without a content-length
  header is returned, not rejected.
\<close>

theorem tryDownloadPdf_counterexample:
  "length hugePdf > 80 * 1024 * 1024
   \<and> fst (tryDownloadPdf hugeWorld ''https://example.org/huge.pdf'' emptyState) = Inr hugePdf"
  using download_huge length_huge by (simp add: maxPdfBytes_def)

section \<open>The ingestion tool\<close>

lemma completedIds_set:
  "set (completedIds rs) =
     {f. \<exists>r \<in> set rs. openwebui_status r = ''completed'' \<and> openwebui_file_id r = Some f}"
  by (induction rs) (auto simp: completedIds_def split: option.splits)

text \<open>
  C2.  In every run of the ingestion tool, the poll requests are for the file IDs that
  the store returned to the upload requests, one poll for each such ID and in their
  order, and the trace has at most one batch-attach request.  When the tool returns its
  report, the batch-attach request carries exactly the completed uploads of the run, in
  their order: the file IDs that the store returned to an upload request and for which
  it answered the poll that follows with the status "completed".  These are the file IDs
  of the records whose status is "completed", one for each such record, and the request
  is absent exactly when there is none.  So the file of an upload or of a poll that
  threw, and a file whose polled status is "failed" or "timeout", is never attached.
  When the tool throws, there is no batch-attach request, or a single one that carries
  the completed uploads of the run, of which there is at least one.
\<close>

theorem batch_attach_spec:
  "\<exists>evs. trace (snd (ingestToOpenWebUITool P W args s)) = trace s @ evs
     \<and> polledIds evs = uploadedIds W (trace s) evs
     \<and> (case fst (ingestToOpenWebUITool P W args s) of
        Inr out \<Rightarrow>
          attachCalls evs =
            (if completedUploads W (trace s) evs = [] then []
             else [(info_id (knowledge_base out), completedUploads W (trace s) evs)])
          \<and> completedUploads W (trace s) evs = completedIds (results out)
          \<and> set (completedIds (results out)) =
              {f. \<exists>r \<in> set (results out). openwebui_status r = ''completed'' \<and> openwebui_file_id r = Some f}
          \<and> length (completedIds (results out)) =
              length (filter (\<lambda>r. openwebui_status r = ''completed'') (results out))
      | Inl e \<Rightarrow>
          attachCalls evs = []
          \<or> (\<exists>kb. attachCalls evs = [(kb, completedUploads W (trace s) evs)]
                \<and> completedUploads W (trace s) evs \<noteq> []))"
proof -
  from ingest_run[of P W args s] obtain evs where
    evs: "trace (snd (ingestToOpenWebUITool P W args s)) = trace s @ evs"
      "polledIds evs = uploadedIds W (trace s) evs"
      "(case fst (ingestToOpenWebUITool P W args s) of
        Inr out \<Rightarrow>
          attachCalls evs =
            (if completedIds (results out) = [] then []
             else [(info_id (knowledge_base out), completedIds (results out))])
          \<and> completedIds (results out) = completedUploads W (trace s) evs
          \<and> list_all hasFile (results out)
          \<and> uploaded_success_count out = int (length (completedIds (results out)))
          \<and> uploaded_failed_count out =
              int (length (results out)) - int (length (completedIds (results out)))
          \<and> (\<exists>input. parseIngestArgs args = Inr input
                \<and> roundsFor P W input (emit (Mkdir (scratchDir P)) s)
                     (take (maxPapers input) (setOf (candidateIds input))) (results out)
                \<and> set (getWorkCalls evs)
                     \<subseteq> set (workIdsOf (take (maxPapers input) (setOf (candidateIds input))))
                \<and> length (getWorkCalls evs)
                     \<le> length (take (maxPapers input) (setOf (candidateIds input))))
      | Inl e \<Rightarrow>
          attachCalls evs = []
          \<or> (\<exists>kb. attachCalls evs = [(kb, completedUploads W (trace s) evs)]
                \<and> completedUploads W (trace s) evs \<noteq> []))"
    by blast
  show ?thesis
  proof (cases "fst (ingestToOpenWebUITool P W args s)")
    case (Inl e)
    with evs show ?thesis by (intro exI[of _ evs]) simp
  next
    case (Inr out)
    with evs(3) have h: "list_all hasFile (results out)"
      and p: "completedIds (results out) = completedUploads W (trace s) evs"
      and a: "attachCalls evs =
            (if completedIds (results out) = [] then []
             else [(info_id (knowledge_base out), completedIds (results out))])"
      by simp_all
    have l: "length (completedIds (results out)) =
              length (filter (\<lambda>r. openwebui_status r = ''completed'') (results out))"
      using length_completedIds[OF h] .
    have a': "attachCalls evs =
            (if completedUploads W (trace s) evs = [] then []
             else [(info_id (knowledge_base out), completedUploads W (trace s) evs)])"
      using a unfolding p .
    show ?thesis
      using Inr evs(1,2) a' p[symmetric] l completedIds_set[of "results out"]
      by (intro exI[of _ evs]) simp
  qed
qed

theorem batch_attach_spec_witness:
  "fst (ingestToOpenWebUITool demoPlatform flakyWorld (demoArgs [''W1'', ''W2'', ''W3''] 10) emptyState) =
     Inr \<lparr>knowledge_base = demoKb, uploaded_success_count = 1, uploaded_failed_count = 2,
          warning = None, results = [demoRecord1 Pdf downloadedNote, flakyRecord2, flakyRecord3]\<rparr>
   \<and> openwebui_file_id flakyRecord2 = None
   \<and> openwebui_file_id flakyRecord3 = Some ''file-W3''
   \<and> attachCalls (trace (snd (ingestToOpenWebUITool demoPlatform flakyWorld
        (demoArgs [''W1'', ''W2'', ''W3''] 10) emptyState))) = [(''kb-0'', [''file-W1''])]
   \<and> completedUploads flakyWorld [] (trace (snd (ingestToOpenWebUITool demoPlatform flakyWorld
        (demoArgs [''W1'', ''W2'', ''W3''] 10) emptyState))) = [''file-W1'']
   \<and> polledIds (trace (snd (ingestToOpenWebUITool demoPlatform flakyWorld
        (demoArgs [''W1'', ''W2'', ''W3''] 10) emptyState))) =
      uploadedIds flakyWorld [] (trace (snd (ingestToOpenWebUITool demoPlatform flakyWorld
        (demoArgs [''W1'', ''W2'', ''W3''] 10) emptyState)))"
proof -
  let ?run = "ingestToOpenWebUITool demoPlatform flakyWorld
      (demoArgs [''W1'', ''W2'', ''W3''] 10) emptyState"
  have c: "completedIds [demoRecord1 Pdf downloadedNote, flakyRecord2, flakyRecord3] = [''file-W1'']"
    by (simp add: completedIds_def demoRecord1_def flakyRecord2_def flakyRecord3_def)
  have e: "trace emptyState = []" by (simp add: emptyState_def)
  from batch_attach_spec[of demoPlatform flakyWorld "demoArgs [''W1'', ''W2'', ''W3''] 10" emptyState]
  obtain evs where evs: "trace (snd ?run) = evs"
    "polledIds evs = uploadedIds flakyWorld [] evs"
    "attachCalls evs =
       (if completedUploads flakyWorld [] evs = [] then []
        else [(info_id demoKb, completedUploads flakyWorld [] evs)])"
    "completedUploads flakyWorld [] evs = [''file-W1'']"
    unfolding demo_flaky e using c by auto
  have "attachCalls (trace (snd ?run)) = [(''kb-0'', [''file-W1''])]"
    using evs(1,3,4) by (simp add: demoKb_def)
  moreover have "completedUploads flakyWorld [] (trace (snd ?run)) = [''file-W1'']"
    using evs(1,4) by simp
  moreover have "polledIds (trace (snd ?run)) = uploadedIds flakyWorld [] (trace (snd ?run))"
    using evs(1,2) by simp
  moreover have "openwebui_file_id flakyRecord2 = None" "openwebui_file_id flakyRecord3 = Some ''file-W3''"
    by (simp_all add: flakyRecord2_def flakyRecord3_def)
  ultimately show ?thesis using demo_flaky by (intro conjI)
qed

text \<open>
  C10.  In every report of the ingestion tool, \<^verbatim>\<open>uploaded_success_count\<close> is the number of
  records whose status is "completed", \<^verbatim>\<open>uploaded_failed_count\<close> is the number of the other
  records, and the two add up to the length of \<^verbatim>\<open>results\<close>.
\<close>

theorem counts_spec:
  assumes "fst (ingestToOpenWebUITool P W args s) = Inr out"
  shows "uploaded_success_count out = int (length (filter completed (results out)))
     \<and> uploaded_failed_count out = int (length (filter (\<lambda>r. \<not> completed r) (results out)))
     \<and> uploaded_success_count out + uploaded_failed_count out = int (length (results out))"
proof -
  from ingest_run[of P W args s] assms have
    h: "list_all hasFile (results out)"
       "uploaded_success_count out = int (length (completedIds (results out)))"
       "uploaded_failed_count out =
              int (length (results out)) - int (length (completedIds (results out)))"
    by auto
  have l: "length (completedIds (results out)) = length (filter completed (results out))"
    using length_completedIds[OF h(1)] by (simp add: completed_def[abs_def])
  have sum: "length (filter completed (results out)) + length (filter (\<lambda>r. \<not> completed r) (results out))
      = length (results out)"
    by (rule sum_length_filter_compl)
  show ?thesis using h(2,3) l sum by linarith
qed

theorem counts_spec_witness:
  "fst (ingestToOpenWebUITool demoPlatform demoWorld
      (demoArgs [''W1'', ''W2'', ''W3'', ''W1''] 10) emptyState) =
     Inr \<lparr>knowledge_base = demoKb, uploaded_success_count = 1, uploaded_failed_count = 2,
          warning = None, results = [demoRecord1 Pdf downloadedNote, demoRecord2, demoRecord3]\<rparr>
   \<and> length (filter completed [demoRecord1 Pdf downloadedNote, demoRecord2, demoRecord3]) = 1
   \<and> length (filter (\<lambda>r. \<not> completed r) [demoRecord1 Pdf downloadedNote, demoRecord2, demoRecord3]) = 2"
  using counts_spec[OF demo_three] demo_three by simp
lemma remdups_snoc: "remdups (ys @ [x]) = filter (\<lambda>y. y \<noteq> x) (remdups ys) @ [x]"
  by (induction ys) auto

lemma setOf_eq: "setOf xs = rev (remdups (rev xs))"
proof (induction xs rule: setOf.induct)
  case 1
  then show ?case by simp
next
  case (2 x xs)
  have "rev (remdups (rev (x # xs))) = x # rev (filter (\<lambda>y. y \<noteq> x) (remdups (rev xs)))"
    by (simp add: remdups_snoc)
  also have "filter (\<lambda>y. y \<noteq> x) (remdups (rev xs)) = remdups (rev (filter (\<lambda>y. y \<noteq> x) xs))"
    by (simp add: remdups_filter rev_filter)
  finally show ?case using 2 by simp
qed

lemma parseIngestArgs_Inr:
  "parseIngestArgs args = Inr input \<Longrightarrow>
     candidateIds input = arg_candidateIds args
     \<and> maxPapers input = nat (case arg_maxPapers args of None \<Rightarrow> 10 | Some n \<Rightarrow> n)
     \<and> 1 \<le> maxPapers input \<and> maxPapers input \<le> 30"
  by (auto simp: parseIngestArgs_def Let_def split: if_splits option.splits)

text \<open>
  C6.  When the ingestion tool returns its report, the selected IDs are the candidate ID
  strings without repetitions, each at the place of its first occurrence, cut to the
  first \<^verbatim>\<open>maxPapers\<close> of them.  The records of \<^verbatim>\<open>results\<close> are, one for one and in order,
  the records that the rounds of the loop make for the selected IDs: the round for the
  first selected ID starts in the state after the scratch directory is made, the round
  for every other one in the state that the round before it has left.  So the number of
  records is the smaller of \<^verbatim>\<open>maxPapers\<close> and the number of distinct ID strings (one
  record for \<^verbatim>\<open>maxPapers\<close> = 1 and three distinct IDs).  Every work lookup of the run is
  for the canonical form of a selected ID, and there are no more lookups than records: no
  round is run, no record is made and no work is looked up for an ID beyond the cut.
\<close>

theorem candidate_selection_spec:
  assumes "fst (ingestToOpenWebUITool P W args s) = Inr out"
  shows "\<exists>input evs. parseIngestArgs args = Inr input
     \<and> candidateIds input = arg_candidateIds args
     \<and> maxPapers input = nat (case arg_maxPapers args of None \<Rightarrow> 10 | Some n \<Rightarrow> n)
     \<and> setOf (candidateIds input) = rev (remdups (rev (candidateIds input)))
     \<and> distinct (setOf (candidateIds input))
     \<and> roundsFor P W input (emit (Mkdir (scratchDir P)) s)
          (take (maxPapers input) (setOf (candidateIds input))) (results out)
     \<and> length (results out) = min (maxPapers input) (card (set (candidateIds input)))
     \<and> trace (snd (ingestToOpenWebUITool P W args s)) = trace s @ evs
     \<and> set (getWorkCalls evs)
          \<subseteq> set (workIdsOf (take (maxPapers input) (setOf (candidateIds input))))
     \<and> length (getWorkCalls evs) \<le> length (results out)"
proof -
  from ingest_run[of P W args s] obtain evs where
    evs: "trace (snd (ingestToOpenWebUITool P W args s)) = trace s @ evs"
      "(case fst (ingestToOpenWebUITool P W args s) of
        Inr out \<Rightarrow>
          attachCalls evs =
            (if completedIds (results out) = [] then []
             else [(info_id (knowledge_base out), completedIds (results out))])
          \<and> completedIds (results out) = completedUploads W (trace s) evs
          \<and> list_all hasFile (results out)
          \<and> uploaded_success_count out = int (length (completedIds (results out)))
          \<and> uploaded_failed_count out =
              int (length (results out)) - int (length (completedIds (results out)))
          \<and> (\<exists>input. parseIngestArgs args = Inr input
                \<and> roundsFor P W input (emit (Mkdir (scratchDir P)) s)
                     (take (maxPapers input) (setOf (candidateIds input))) (results out)
                \<and> set (getWorkCalls evs)
                     \<subseteq> set (workIdsOf (take (maxPapers input) (setOf (candidateIds input))))
                \<and> length (getWorkCalls evs)
                     \<le> length (take (maxPapers input) (setOf (candidateIds input))))
      | Inl e \<Rightarrow>
          attachCalls evs = []
          \<or> (\<exists>kb. attachCalls evs = [(kb, completedUploads W (trace s) evs)]
                \<and> completedUploads W (trace s) evs \<noteq> []))"
    by blast
  from evs(2) assms obtain input where
    i: "parseIngestArgs args = Inr input"
       "roundsFor P W input (emit (Mkdir (scratchDir P)) s)
          (take (maxPapers input) (setOf (candidateIds input))) (results out)"
       "set (getWorkCalls evs)
          \<subseteq> set (workIdsOf (take (maxPapers input) (setOf (candidateIds input))))"
       "length (getWorkCalls evs) \<le> length (take (maxPapers input) (setOf (candidateIds input)))"
    by auto
  have len: "length (results out) = length (take (maxPapers input) (setOf (candidateIds input)))"
    using roundsFor_length[OF i(2)] .
  then have l: "length (results out) = min (maxPapers input) (card (set (candidateIds input)))"
    by (simp add: length_setOf min.commute)
  have g: "length (getWorkCalls evs) \<le> length (results out)" using i(4) len by simp
  have p: "candidateIds input = arg_candidateIds args"
    "maxPapers input = nat (case arg_maxPapers args of None \<Rightarrow> 10 | Some n \<Rightarrow> n)"
    using parseIngestArgs_Inr[OF i(1)] by simp_all
  show ?thesis
    using i(1,2,3) p l g evs(1) setOf_eq[of "candidateIds input"]
      distinct_setOf[of "candidateIds input"]
    by (intro exI[of _ input] exI[of _ evs] conjI)
qed

theorem candidate_selection_spec_witness:
  "fst (ingestToOpenWebUITool demoPlatform demoWorld (demoArgs [''W1'', ''W2'', ''W3''] 1) emptyState) =
     Inr \<lparr>knowledge_base = demoKb, uploaded_success_count = 1, uploaded_failed_count = 0,
          warning = None, results = [demoRecord1 Pdf downloadedNote]\<rparr>
   \<and> card (set (arg_candidateIds (demoArgs [''W1'', ''W2'', ''W3''] 1))) = 3
   \<and> length [demoRecord1 Pdf downloadedNote] = min 1 3
   \<and> roundsFor demoPlatform demoWorld
        \<lparr>candidateIds = [''W1'', ''W2'', ''W3''], queryText = None,
         knowledgeBaseName = ''Public OA Scholar KB'',
         knowledgeBaseDescription = ''OA-first literature corpus. Non-OA papers are stored as abstract-only notes.'',
         makePublic = True, maxPapers = 1, fileProcessTimeoutSec = 900,
         openwebuiBaseUrl = None, openwebuiApiKey = None\<rparr>
        (emit (Mkdir (scratchDir demoPlatform)) emptyState) [''W1''] [demoRecord1 Pdf downloadedNote]
   \<and> set (getWorkCalls (trace (snd (ingestToOpenWebUITool demoPlatform demoWorld
        (demoArgs [''W1'', ''W2'', ''W3''] 1) emptyState)))) \<subseteq> {''https://openalex.org/W1''}
   \<and> length (getWorkCalls (trace (snd (ingestToOpenWebUITool demoPlatform demoWorld
        (demoArgs [''W1'', ''W2'', ''W3''] 1) emptyState)))) \<le> 1"
proof -
  let ?run = "ingestToOpenWebUITool demoPlatform demoWorld (demoArgs [''W1'', ''W2'', ''W3''] 1) emptyState"
  let ?input = "\<lparr>candidateIds = [''W1'', ''W2'', ''W3''], queryText = None,
         knowledgeBaseName = ''Public OA Scholar KB'',
         knowledgeBaseDescription = ''OA-first literature corpus. Non-OA papers are stored as abstract-only notes.'',
         makePublic = True, maxPapers = 1, fileProcessTimeoutSec = 900,
         openwebuiBaseUrl = None, openwebuiApiKey = None\<rparr>"
  have c: "card (set (arg_candidateIds (demoArgs [''W1'', ''W2'', ''W3''] 1))) = 3"
    by (simp add: demoArgs_def)
  have pd: "parseIngestArgs (demoArgs [''W1'', ''W2'', ''W3''] 1) = Inr ?input"
    by (simp add: parse_demo)
  have sel: "take (maxPapers ?input) (setOf (candidateIds ?input)) = [''W1'']"
    by simp
  have w: "workIdsOf [''W1''] = [''https://openalex.org/W1'']"
    by (simp add: workIdsOf_def normalize_W1)
  have e: "trace emptyState = []" by (simp add: emptyState_def)
  from candidate_selection_spec[OF demo_capped] obtain input evs where
    t: "parseIngestArgs (demoArgs [''W1'', ''W2'', ''W3''] 1) = Inr input"
    "length [demoRecord1 Pdf downloadedNote] = min (maxPapers input) (card (set (candidateIds input)))"
    "roundsFor demoPlatform demoWorld input (emit (Mkdir (scratchDir demoPlatform)) emptyState)
          (take (maxPapers input) (setOf (candidateIds input))) [demoRecord1 Pdf downloadedNote]"
    "trace (snd ?run) = trace emptyState @ evs"
    "set (getWorkCalls evs) \<subseteq> set (workIdsOf (take (maxPapers input) (setOf (candidateIds input))))"
    "length (getWorkCalls evs) \<le> length [demoRecord1 Pdf downloadedNote]"
    by auto
  have i: "input = ?input" using t(1) pd by simp
  have l: "length [demoRecord1 Pdf downloadedNote] = min 1 3"
    using t(2) unfolding i by simp
  have r: "roundsFor demoPlatform demoWorld ?input (emit (Mkdir (scratchDir demoPlatform)) emptyState)
          [''W1''] [demoRecord1 Pdf downloadedNote]"
    using t(3) unfolding i sel .
  have ev: "trace (snd ?run) = evs" using t(4) e by simp
  have g1: "set (getWorkCalls (trace (snd ?run))) \<subseteq> {''https://openalex.org/W1''}"
    using t(5) unfolding i sel w ev by simp
  have g2: "length (getWorkCalls (trace (snd ?run))) \<le> 1"
    using t(6) unfolding ev by simp
  show ?thesis using demo_capped c l r g1 g2 by (intro conjI)
qed

section \<open>The retrieval mode\<close>

lemma tryDownloadPdf_pair:
  "tryDownloadPdf W url s = (fst (tryDownloadPdf W url s), emit (Fetch url) s)"
  using tryDownloadPdf_state[of W url s] by (metis prod.collapse)

lemma tryAcquire_pdf:
  assumes "isOa c \<and> truthy (pdfUrl c)"
  shows "tryAcquire P W c b s =
     (case fst (tryDownloadPdf W (the (pdfUrl c)) s) of
        Inl e \<Rightarrow> (Inl e, emit (Fetch (the (pdfUrl c))) s)
      | Inr bytes \<Rightarrow>
          (case writeFile W (trace s @ [Fetch (the (pdfUrl c))]) (scratchPath P (b @ ''.pdf'')) bytes of
             Some e \<Rightarrow> (Inl e, emit (WriteFile (scratchPath P (b @ ''.pdf'')) bytes)
                               (emit (Fetch (the (pdfUrl c))) s))
           | None \<Rightarrow> (Inr \<lparr>localPath = scratchPath P (b @ ''.pdf''), retrievalMode = Pdf,
                            retrievalNote = downloadedNote\<rparr>,
                       emit (WriteFile (scratchPath P (b @ ''.pdf'')) bytes)
                         (emit (Fetch (the (pdfUrl c))) s))))"
  using assms tryDownloadPdf_pair[of W "the (pdfUrl c)" s]
  by (cases "fst (tryDownloadPdf W (the (pdfUrl c)) s)")
     (auto simp: tryAcquire_def doWriteFile_def Let_def emit_def split: option.splits)

lemma tryAcquire_note:
  assumes "\<not> (isOa c \<and> truthy (pdfUrl c))"
  shows "tryAcquire P W c b s =
     (case writeFile W (trace s) (scratchPath P (b @ ''.md'')) (buildAbstractNote c unavailableNote) of
        Some e \<Rightarrow> (Inl e, emit (WriteFile (scratchPath P (b @ ''.md'')) (buildAbstractNote c unavailableNote)) s)
      | None \<Rightarrow> (Inr \<lparr>localPath = scratchPath P (b @ ''.md''), retrievalMode = AbstractOnly,
                       retrievalNote = unavailableNote\<rparr>,
                  emit (WriteFile (scratchPath P (b @ ''.md'')) (buildAbstractNote c unavailableNote)) s))"
  using assms by (auto simp: tryAcquire_def doWriteFile_def Let_def split: option.splits)

lemma acquire_catch:
  "acquire P W c b s =
     (case tryAcquire P W c b s of
        (Inr a, s1) \<Rightarrow> (Inr a, s1)
      | (Inl e, s1) \<Rightarrow>
          (case writeFile W (trace s1) (scratchPath P (b @ ''.md'')) (buildAbstractNote c (failedNote e)) of
             Some e2 \<Rightarrow> (Inl e2, emit (WriteFile (scratchPath P (b @ ''.md'')) (buildAbstractNote c (failedNote e))) s1)
           | None \<Rightarrow> (Inr \<lparr>localPath = scratchPath P (b @ ''.md''), retrievalMode = AbstractOnly,
                            retrievalNote = failedNote e\<rparr>,
                       emit (WriteFile (scratchPath P (b @ ''.md'')) (buildAbstractNote c (failedNote e))) s1)))"
  by (auto simp: acquire_def doWriteFile_def Let_def split: sum.splits option.splits prod.splits)

lemma acquire_mode:
  assumes "acquire P W c b s = (Inr a, s')"
  shows "(retrievalMode a = Pdf \<longleftrightarrow>
         isOa c \<and> truthy (pdfUrl c)
         \<and> (\<exists>bytes. fst (tryDownloadPdf W (the (pdfUrl c)) s) = Inr bytes
              \<and> writeFile W (trace s @ [Fetch (the (pdfUrl c))]) (scratchPath P (b @ ''.pdf'')) bytes = None))
      \<and> (retrievalMode a = Pdf \<longrightarrow> retrievalNote a = downloadedNote)
      \<and> (retrievalMode a = AbstractOnly \<longrightarrow>
            retrievalNote a = unavailableNote \<or> (\<exists>e. retrievalNote a = failedNote e))"
proof (cases "isOa c \<and> truthy (pdfUrl c)")
  case True
  show ?thesis
    using assms True
    unfolding acquire_catch tryAcquire_pdf[OF True]
    by (cases "fst (tryDownloadPdf W (the (pdfUrl c)) s)")
       (auto split: option.splits)
next
  case False
  show ?thesis
    using assms False
    unfolding acquire_catch tryAcquire_note[OF False]
    by (auto split: option.splits)
qed

lemma acquire_unavailable:
  assumes "\<not> (isOa c \<and> truthy (pdfUrl c))"
    and "writeFile W (trace s) (scratchPath P (b @ ''.md'')) (buildAbstractNote c unavailableNote) = None"
  shows "\<exists>a s'. acquire P W c b s = (Inr a, s') \<and> retrievalMode a = AbstractOnly
           \<and> retrievalNote a = unavailableNote"
  unfolding acquire_catch tryAcquire_note[OF assms(1)] using assms(2) by simp

lemma acquire_failed:
  assumes "isOa c \<and> truthy (pdfUrl c)"
    and "fst (tryDownloadPdf W (the (pdfUrl c)) s) = Inl e"
    and "writeFile W (trace s @ [Fetch (the (pdfUrl c))]) (scratchPath P (b @ ''.md''))
           (buildAbstractNote c (failedNote e)) = None"
  shows "\<exists>a s'. acquire P W c b s = (Inr a, s') \<and> retrievalMode a = AbstractOnly
           \<and> retrievalNote a = failedNote e"
  unfolding acquire_catch tryAcquire_pdf[OF assms(1)] using assms(2,3) by (simp add: emit_def)

lemma acquire_throws:
  "(\<exists>e s'. acquire P W c b s = (Inl e, s')) \<longleftrightarrow>
     (\<exists>e1 s1. tryAcquire P W c b s = (Inl e1, s1)
        \<and> writeFile W (trace s1) (scratchPath P (b @ ''.md'')) (buildAbstractNote c (failedNote e1)) \<noteq> None)"
  unfolding acquire_catch
  by (cases "tryAcquire P W c b s") (auto split: sum.splits option.splits)

lemma processCandidate_mode:
  assumes "processCandidate P W input rawId s0 = (Inr (r, ids), s')"
  shows "\<exists>c1 s1 a s2.
        resolveCandidate W rawId (case queryText input of None \<Rightarrow> '''' | Some x \<Rightarrow> x) s0 = (Inr c1, s1)
      \<and> acquire P W c1 (sanitizeFilename P (title c1 @ ''_'' @ openalexShortId c1)) s1 = (Inr a, s2)
      \<and> retrieval_mode r = retrievalMode a \<and> retrieval_note r = retrievalNote a"
  using processCandidate_Inr[OF assms] by fastforce
text \<open>
  C1, as amended.  For a candidate of the ingestion loop, the retrieval ends in mode "pdf"
  exactly when the candidate is marked open-access, its PDF URL is neither null nor
  empty, the download returns the bytes, and writing them to the scratch file succeeds;
  the note is then "Downloaded OA PDF and uploaded for full embedding.".  When the
  candidate is not open-access or has no PDF URL, and the note file is written, the mode
  is "abstract-only" with the note "OA PDF unavailable; stored abstract-only note.".
  When the download throws and the fallback note file is written, the mode is
  "abstract-only" and the note is "PDF download failed (", the message of the exception,
  "); stored abstract-only note.".  The retrieval throws, and the tool with it, exactly
  when the first attempt throws and writing the fallback note file throws as well; a
  failed download alone never does.  The record of the candidate carries the mode and the
  note of the retrieval.
\<close>

theorem retrieval_mode_spec:
  "(\<forall>a s'. acquire P W c b s = (Inr a, s') \<longrightarrow>
      (retrievalMode a = Pdf \<longleftrightarrow>
         isOa c \<and> truthy (pdfUrl c)
         \<and> (\<exists>bytes. fst (tryDownloadPdf W (the (pdfUrl c)) s) = Inr bytes
              \<and> writeFile W (trace s @ [Fetch (the (pdfUrl c))]) (scratchPath P (b @ ''.pdf'')) bytes = None))
      \<and> (retrievalMode a = Pdf \<longrightarrow> retrievalNote a = downloadedNote)
      \<and> (retrievalMode a = AbstractOnly \<longrightarrow>
            retrievalNote a = unavailableNote \<or> (\<exists>e. retrievalNote a = failedNote e)))
   \<and> (\<not> (isOa c \<and> truthy (pdfUrl c))
        \<and> writeFile W (trace s) (scratchPath P (b @ ''.md'')) (buildAbstractNote c unavailableNote) = None
      \<longrightarrow> (\<exists>a s'. acquire P W c b s = (Inr a, s') \<and> retrievalMode a = AbstractOnly
              \<and> retrievalNote a = unavailableNote))
   \<and> (\<forall>e. isOa c \<and> truthy (pdfUrl c)
        \<and> fst (tryDownloadPdf W (the (pdfUrl c)) s) = Inl e
        \<and> writeFile W (trace s @ [Fetch (the (pdfUrl c))]) (scratchPath P (b @ ''.md''))
             (buildAbstractNote c (failedNote e)) = None
      \<longrightarrow> (\<exists>a s'. acquire P W c b s = (Inr a, s') \<and> retrievalMode a = AbstractOnly
              \<and> retrievalNote a = failedNote e))
   \<and> ((\<exists>e s'. acquire P W c b s = (Inl e, s')) \<longleftrightarrow>
        (\<exists>e1 s1. tryAcquire P W c b s = (Inl e1, s1)
           \<and> writeFile W (trace s1) (scratchPath P (b @ ''.md''))
                (buildAbstractNote c (failedNote e1)) \<noteq> None))
   \<and> failedNote e0 = ''PDF download failed ('' @ message e0 @ ''); stored abstract-only note.''
   \<and> (\<forall>r ids s0 s'. processCandidate P W input rawId s0 = (Inr (r, ids), s') \<longrightarrow>
        (\<exists>c1 s1 a s2.
           resolveCandidate W rawId (case queryText input of None \<Rightarrow> '''' | Some x \<Rightarrow> x) s0 = (Inr c1, s1)
         \<and> acquire P W c1 (sanitizeFilename P (title c1 @ ''_'' @ openalexShortId c1)) s1 = (Inr a, s2)
         \<and> retrieval_mode r = retrievalMode a \<and> retrieval_note r = retrievalNote a))"
  using acquire_mode[of P W c b s] acquire_unavailable[of c W s P b] acquire_failed[of c W s _ P b]
    acquire_throws[of P W c b s] processCandidate_mode[of P W input rawId]
  by (simp add: failedNote_def)

theorem retrieval_mode_spec_witness:
  "isOa (demoCandidate ''https://openalex.org/W2'')
   \<and> truthy (pdfUrl (demoCandidate ''https://openalex.org/W2''))
   \<and> fst (tryDownloadPdf demoWorld (the (pdfUrl (demoCandidate ''https://openalex.org/W2''))) emptyState)
       = Inl (Error ''HTTP 404 Not Found'')
   \<and> (\<exists>a s'. acquire demoPlatform demoWorld (demoCandidate ''https://openalex.org/W2'')
                 ''Paper_W2_W2'' emptyState = (Inr a, s')
         \<and> retrievalMode a = AbstractOnly
         \<and> retrievalNote a = ''PDF download failed (HTTP 404 Not Found); stored abstract-only note.'')"
proof -
  let ?c = "demoCandidate ''https://openalex.org/W2''"
  have oa: "isOa ?c \<and> truthy (pdfUrl ?c)"
    by (simp add: demoCandidate_def truthy_def)
  have dl: "fst (tryDownloadPdf demoWorld (the (pdfUrl ?c)) emptyState) = Inl (Error ''HTTP 404 Not Found'')"
    by (simp add: tool_defs step_defs world_defs eval_facts)
  have wr: "writeFile demoWorld (trace emptyState @ [Fetch (the (pdfUrl ?c))])
      (scratchPath demoPlatform (''Paper_W2_W2'' @ ''.md''))
      (buildAbstractNote ?c (failedNote (Error ''HTTP 404 Not Found''))) = None"
    by (simp add: demoWorld_def)
  from retrieval_mode_spec[of demoPlatform demoWorld ?c "''Paper_W2_W2''" emptyState] oa dl wr
  have "\<exists>a s'. acquire demoPlatform demoWorld ?c ''Paper_W2_W2'' emptyState = (Inr a, s')
      \<and> retrievalMode a = AbstractOnly
      \<and> retrievalNote a = failedNote (Error ''HTTP 404 Not Found'')"
    by blast
  then have "\<exists>a s'. acquire demoPlatform demoWorld ?c ''Paper_W2_W2'' emptyState = (Inr a, s')
      \<and> retrievalMode a = AbstractOnly
      \<and> retrievalNote a = ''PDF download failed (HTTP 404 Not Found); stored abstract-only note.''"
    by (simp add: failedNote_def)
  then show ?thesis using oa dl by blast
qed

text \<open>
  C1, as stated, fails.  In a world without room for the PDF the candidate W1 is
  open-access, its PDF URL is not null and the download succeeds, and the recorded mode is
  "abstract-only".  In a world whose scratch directory cannot be written, the failed
  download of W2 ends the whole call with an exception.
\<close>

theorem retrieval_mode_counterexample:
  "getWork fullDiskWorld [Mkdir ''/tmp/mcp-scholar-oa''] ''https://openalex.org/W1'' '''' =
     Inr (demoCandidate ''https://openalex.org/W1'')
   \<and> isOa (demoCandidate ''https://openalex.org/W1'')
   \<and> pdfUrl (demoCandidate ''https://openalex.org/W1'') = Some ''https://example.org/W1.pdf''
   \<and> fst (tryDownloadPdf fullDiskWorld ''https://example.org/W1.pdf'' emptyState) = Inr ''%PDF-1.4 demo''
   \<and> fst (ingestToOpenWebUITool demoPlatform fullDiskWorld (demoArgs [''W1''] 10) emptyState) =
     Inr \<lparr>knowledge_base = demoKb, uploaded_success_count = 1, uploaded_failed_count = 0,
          warning = None,
          results = [demoRecord1 AbstractOnly
            ''PDF download failed (ENOSPC: no space left on device, write); stored abstract-only note.'']\<rparr>
   \<and> fst (tryDownloadPdf readOnlyWorld ''https://example.org/W2.pdf'' emptyState) =
     Inl (Error ''HTTP 404 Not Found'')
   \<and> fst (ingestToOpenWebUITool demoPlatform readOnlyWorld (demoArgs [''W2''] 10) emptyState) =
     Inl (SystemError ''EROFS: read-only file system, open'')"
  using demo_full_disk demo_read_only download_full_disk download_read_only
  by (simp add: fullDiskWorld_def demoWorld_def demoCandidate_def)

section \<open>The knowledge base\<close>

lemma find_skip: "list_all (\<lambda>x. \<not> P x) xs \<Longrightarrow> find P (xs @ ys) = find P ys"
  by (induction xs) auto

lemma find_filter_None: "list_all (\<lambda>x. \<not> P x) xs \<Longrightarrow> find P (filter Q xs) = None"
  by (induction xs) auto

lemma list_all_filter: "list_all P xs \<Longrightarrow> list_all P (filter Q xs)"
  by (induction xs) auto

lemma find_Some_split:
  "find P xs = Some x \<Longrightarrow> P x \<and> (\<exists>before after. xs = before @ x # after \<and> list_all (\<lambda>y. \<not> P y) before)"
proof (induction xs)
  case Nil
  then show ?case by simp
next
  case (Cons y ys)
  show ?case
  proof (cases "P y")
    case True
    with Cons.prems have "x = y" by simp
    with True have "P x \<and> y # ys = [] @ x # ys \<and> list_all (\<lambda>y. \<not> P y) []" by simp
    then show ?thesis by blast
  next
    case False
    with Cons.prems have "find P ys = Some x" by simp
    from Cons.IH[OF this] obtain before after where
      "P x" "ys = before @ x # after" "list_all (\<lambda>y. \<not> P y) before" by blast
    with False have "P x \<and> y # ys = (y # before) @ x # after \<and> list_all (\<lambda>y. \<not> P y) (y # before)"
      by simp
    then show ?thesis by blast
  qed
qed

lemma includesStr_refl: "includesStr s s"
proof -
  have "s = [] @ s @ []" by simp
  then have "spec_isSubstring s s" unfolding spec_isSubstring_def by blast
  then show ?thesis by (simp add: includesStr_iff)
qed

lemma createCalls_append: "createCalls (a @ b) = createCalls a @ createCalls b"
  by (induction a rule: createCalls.induct) auto

lemma createCalls_loop: "list_all loopCall evs \<Longrightarrow> createCalls evs = []"
  by (induction evs rule: createCalls.induct) auto

lemma storeKbs_append: "storeKbs kbs (h @ evs) = storeKbs (storeKbs kbs h) evs"
  by (induction kbs h rule: storeKbs.induct) auto

lemma storeKbs_quiet: "createCalls evs = [] \<Longrightarrow> storeKbs kbs evs = kbs"
  by (induction kbs evs rule: storeKbs.induct) auto

lemma storeKbs_extends:
  "extends loopCall s s' \<Longrightarrow> storeKbs init (trace s') = storeKbs init (trace s)"
  unfolding extends_def by (auto simp: storeKbs_append storeKbs_quiet createCalls_loop)

lemma getOrCreate_found:
  "searchKnowledgeBases W (trace s) (kp_name p) = Inr found \<Longrightarrow>
   find (sameName (kp_name p)) found = Some exact \<Longrightarrow>
     getOrCreateKnowledgeBase W p s = (Inr (exact, False), emit (SearchKnowledgeBases (kp_name p)) s)"
  by (simp add: getOrCreateKnowledgeBase_def doSearchKnowledgeBases_def)

lemma getOrCreate_missing:
  "searchKnowledgeBases W (trace s) (kp_name p) = Inr found \<Longrightarrow>
   find (sameName (kp_name p)) found = None \<Longrightarrow>
     getOrCreateKnowledgeBase W p s =
       (case postCreateKnowledge W (trace s @ [SearchKnowledgeBases (kp_name p)]) (kp_name p)
               (kp_description p) (if kp_makePublic p then AcNull else AcObject []) of
          Inl e \<Rightarrow> Inl e
        | Inr new \<Rightarrow> Inr (new, True),
        emit (CreateKnowledgeBase (kp_name p) (kp_description p)
               (if kp_makePublic p then AcNull else AcObject []))
          (emit (SearchKnowledgeBases (kp_name p)) s))"
  by (simp add: getOrCreateKnowledgeBase_def doSearchKnowledgeBases_def createKnowledgeBase_def
      emit_def Let_def split: sum.splits)

lemma getOrCreate_search_fails:
  "searchKnowledgeBases W (trace s) (kp_name p) = Inl e \<Longrightarrow>
     getOrCreateKnowledgeBase W p s = (Inl e, emit (SearchKnowledgeBases (kp_name p)) s)"
  by (simp add: getOrCreateKnowledgeBase_def doSearchKnowledgeBases_def)

lemma getOrCreate_new:
  assumes "storeWorld init W"
    and "list_all (\<lambda>kb. \<not> sameName (kp_name p) kb) (storeKbs init (trace s))"
  shows "getOrCreateKnowledgeBase W p s =
     (Inr (newKb (storeKbs init (trace s)) p, True),
      emit (CreateKnowledgeBase (kp_name p) (kp_description p)
             (if kp_makePublic p then AcNull else AcObject []))
        (emit (SearchKnowledgeBases (kp_name p)) s))"
proof -
  let ?found = "filter (\<lambda>kb. includesStr (toLowerCase (kb_name kb)) (toLowerCase (kp_name p)))
      (storeKbs init (trace s))"
  have se: "searchKnowledgeBases W (trace s) (kp_name p) = Inr ?found"
    using assms(1) by (simp add: storeWorld_def storeSearch_def)
  have fi: "find (sameName (kp_name p)) ?found = None"
    using assms(2) by (rule find_filter_None)
  have cr: "postCreateKnowledge W (trace s @ [SearchKnowledgeBases (kp_name p)]) (kp_name p)
      (kp_description p) (if kp_makePublic p then AcNull else AcObject []) =
      Inr (newKb (storeKbs init (trace s)) p)"
    using assms(1) by (simp add: storeWorld_def storeCreate_def newKb_def storeKbs_append)
  show ?thesis
    unfolding getOrCreate_missing[OF se fi] cr by simp
qed

lemma getOrCreate_old:
  assumes "storeWorld init W"
    and "storeKbs init (trace s) = K0 @ [kb]"
    and "list_all (\<lambda>kb. \<not> sameName (kp_name p) kb) K0"
    and "kb_name kb = kp_name p"
  shows "getOrCreateKnowledgeBase W p s = (Inr (kb, False), emit (SearchKnowledgeBases (kp_name p)) s)"
proof -
  let ?m = "\<lambda>kb. includesStr (toLowerCase (kb_name kb)) (toLowerCase (kp_name p))"
  have se: "searchKnowledgeBases W (trace s) (kp_name p) = Inr (filter ?m K0 @ [kb])"
    using assms(1,2,4) by (simp add: storeWorld_def storeSearch_def includesStr_refl)
  have "find (sameName (kp_name p)) (filter ?m K0 @ [kb]) = find (sameName (kp_name p)) [kb]"
    using assms(3) by (intro find_skip list_all_filter)
  then have fi: "find (sameName (kp_name p)) (filter ?m K0 @ [kb]) = Some kb"
    using assms(4) by (simp add: sameName_def)
  show ?thesis by (rule getOrCreate_found[OF se fi])
qed
lemma ingest_decomp:
  assumes "fst (ingestToOpenWebUITool P W args s) = Inr out"
  shows "\<exists>input acc s2. parseIngestArgs args = Inr input
     \<and> extends loopCall (emit (Mkdir (scratchDir P)) s) s2
     \<and> ingestToOpenWebUITool P W args s = finishIngest W input acc s2"
  using ingest_cases[of P W args s]
proof (elim disjE exE conjE)
  fix e assume "ingestToOpenWebUITool P W args s = (Inl e, s)"
  with assms show ?thesis by simp
next
  fix e assume "ingestToOpenWebUITool P W args s = (Inl e, emit (Mkdir (scratchDir P)) s)"
  with assms show ?thesis by simp
next
  fix input
  assume c: "parseIngestArgs args = Inr input"
    "(case processCandidates P W input (take (maxPapers input) (setOf (candidateIds input)))
            ([], []) (emit (Mkdir (scratchDir P)) s) of
       (Inl e, s2) \<Rightarrow> ingestToOpenWebUITool P W args s = (Inl e, s2)
     | (Inr acc, s2) \<Rightarrow> ingestToOpenWebUITool P W args s = finishIngest W input acc s2)"
  obtain l s2 where l: "processCandidates P W input (take (maxPapers input) (setOf (candidateIds input)))
      ([], []) (emit (Mkdir (scratchDir P)) s) = (l, s2)"
    by fastforce
  have e: "extends loopCall (emit (Mkdir (scratchDir P)) s) s2"
    using processCandidates_extends[OF l] .
  show ?thesis
  proof (cases l)
    case (Inl e)
    with c(2) l assms show ?thesis by simp
  next
    case (Inr acc)
    with c l have "ingestToOpenWebUITool P W args s = finishIngest W input acc s2" by simp
    with c(1) e show ?thesis by blast
  qed
qed

lemma finishIngest_kb:
  assumes "finishIngest W input acc s2 = (Inr out, s')"
  shows "\<exists>kb isNew s3. getOrCreateKnowledgeBase W (paramsOf input) s2 = (Inr (kb, isNew), s3)
     \<and> info_id (knowledge_base out) = kb_id kb \<and> created (knowledge_base out) = isNew
     \<and> (trace s' = trace s3 \<or> (\<exists>ids. trace s' = trace s3 @ [AddFilesToKnowledgeBase (kb_id kb) ids]))"
  using assms
  by (auto simp: finishIngest_def paramsOf_def Let_def addFilesToKnowledgeBase_def emit_def
      split: sum.splits option.splits prod.splits if_splits)

lemma storeKbs_Mkdir_loop:
  "extends loopCall (emit (Mkdir d) s) s2 \<Longrightarrow> storeKbs init (trace s2) = storeKbs init (trace s)"
  using storeKbs_extends[of "emit (Mkdir d) s" s2 init]
  by (simp add: emit_def storeKbs_append)

lemma ingest_store_new:
  assumes "storeWorld init W"
    and "fst (ingestToOpenWebUITool P W args s) = Inr out"
    and "parseIngestArgs args = Inr input"
    and "list_all (\<lambda>kb. \<not> sameName (knowledgeBaseName input) kb) (storeKbs init (trace s))"
  shows "created (knowledge_base out)"
    and "info_id (knowledge_base out) = kb_id (newKb (storeKbs init (trace s)) (paramsOf input))"
    and "storeKbs init (trace (snd (ingestToOpenWebUITool P W args s))) =
           storeKbs init (trace s) @ [newKb (storeKbs init (trace s)) (paramsOf input)]"
proof -
  let ?K = "storeKbs init (trace s)"
  let ?p = "paramsOf input"
  from ingest_decomp[OF assms(2)] assms(3) obtain acc s2 where
    e: "extends loopCall (emit (Mkdir (scratchDir P)) s) s2"
    and run: "ingestToOpenWebUITool P W args s = finishIngest W input acc s2"
    by auto
  have K2: "storeKbs init (trace s2) = ?K" using storeKbs_Mkdir_loop[OF e] .
  have n: "kp_name ?p = knowledgeBaseName input" by (simp add: paramsOf_def)
  let ?s3 = "emit (CreateKnowledgeBase (kp_name ?p) (kp_description ?p)
             (if kp_makePublic ?p then AcNull else AcObject []))
        (emit (SearchKnowledgeBases (kp_name ?p)) s2)"
  have g: "getOrCreateKnowledgeBase W ?p s2 = (Inr (newKb ?K ?p, True), ?s3)"
    using getOrCreate_new[OF assms(1), of ?p s2] assms(4) K2 n by simp
  have f: "finishIngest W input acc s2 = (Inr out, snd (ingestToOpenWebUITool P W args s))"
    using run assms(2) by (metis prod.collapse)
  from finishIngest_kb[OF f] g have
    r: "info_id (knowledge_base out) = kb_id (newKb ?K ?p)" "created (knowledge_base out)"
      "trace (snd (ingestToOpenWebUITool P W args s)) = trace ?s3
       \<or> (\<exists>ids. trace (snd (ingestToOpenWebUITool P W args s)) =
              trace ?s3 @ [AddFilesToKnowledgeBase (kb_id (newKb ?K ?p)) ids])"
    by auto
  show "created (knowledge_base out)" using r(2) .
  show "info_id (knowledge_base out) = kb_id (newKb ?K ?p)" using r(1) .
  have s3: "storeKbs init (trace ?s3) = ?K @ [newKb ?K ?p]"
    using K2 by (simp add: emit_def storeKbs_append newKb_def)
  from r(3) show "storeKbs init (trace (snd (ingestToOpenWebUITool P W args s))) = ?K @ [newKb ?K ?p]"
    using s3 by (auto simp: storeKbs_append)
qed

lemma ingest_store_old:
  assumes "storeWorld init W"
    and "fst (ingestToOpenWebUITool P W args s) = Inr out"
    and "parseIngestArgs args = Inr input"
    and "storeKbs init (trace s) = K0 @ [kb]"
    and "list_all (\<lambda>kb. \<not> sameName (knowledgeBaseName input) kb) K0"
    and "kb_name kb = knowledgeBaseName input"
  shows "\<not> created (knowledge_base out) \<and> info_id (knowledge_base out) = kb_id kb"
proof -
  let ?p = "paramsOf input"
  from ingest_decomp[OF assms(2)] assms(3) obtain acc s2 where
    e: "extends loopCall (emit (Mkdir (scratchDir P)) s) s2"
    and run: "ingestToOpenWebUITool P W args s = finishIngest W input acc s2"
    by auto
  have K2: "storeKbs init (trace s2) = K0 @ [kb]" using storeKbs_Mkdir_loop[OF e] assms(4) by simp
  have n: "kp_name ?p = knowledgeBaseName input" by (simp add: paramsOf_def)
  have g: "getOrCreateKnowledgeBase W ?p s2 = (Inr (kb, False), emit (SearchKnowledgeBases (kp_name ?p)) s2)"
    using getOrCreate_old[OF assms(1) K2, of ?p] assms(5,6) n by simp
  have f: "finishIngest W input acc s2 = (Inr out, snd (ingestToOpenWebUITool P W args s))"
    using run assms(2) by (metis prod.collapse)
  from finishIngest_kb[OF f] g show ?thesis by auto
qed

lemma ingest_twice:
  assumes "storeWorld init W"
    and "fst (ingestToOpenWebUITool P W args1 s0) = Inr out1"
    and "fst (ingestToOpenWebUITool P W args2 (snd (ingestToOpenWebUITool P W args1 s0))) = Inr out2"
    and "parseIngestArgs args1 = Inr in1" and "parseIngestArgs args2 = Inr in2"
    and "knowledgeBaseName in2 = knowledgeBaseName in1"
    and "list_all (\<lambda>kb. \<not> sameName (knowledgeBaseName in1) kb) (storeKbs init (trace s0))"
  shows "created (knowledge_base out1) \<and> \<not> created (knowledge_base out2)
     \<and> info_id (knowledge_base out2) = info_id (knowledge_base out1)"
proof -
  let ?K = "storeKbs init (trace s0)"
  let ?kb = "newKb ?K (paramsOf in1)"
  note first = ingest_store_new[OF assms(1,2,4,7)]
  have nm: "kb_name ?kb = knowledgeBaseName in2"
    using assms(6) by (simp add: newKb_def paramsOf_def)
  have old: "list_all (\<lambda>kb. \<not> sameName (knowledgeBaseName in2) kb) ?K"
    using assms(6,7) by simp
  from ingest_store_old[OF assms(1,3,5) first(3) old nm] first(1,2)
  show ?thesis by simp
qed

text \<open>
  C7, as amended.  \<^verbatim>\<open>getOrCreateKnowledgeBase\<close> first searches by name.  When the answer has a base whose
  trimmed, lower-cased name equals the trimmed, lower-cased requested name, it returns the
  first such base with created = false and makes no other request, whatever the
  description and the visibility asked for.  Otherwise it sends one create request with
  the name, the description and an access control that is null when \<^verbatim>\<open>makePublic\<close> holds
  and an empty object when not, and returns the created base with created = true.  With
  a knowledge store as the specification describes it, which has no base of that name at
  the start, two successive ingestion calls with the same name that both return a report
  yield created = true, then created = false, and the same base ID.
\<close>

theorem getOrCreateKnowledgeBase_spec:
  "(\<forall>found exact.
      searchKnowledgeBases W (trace s) (kp_name p) = Inr found
      \<and> find (sameName (kp_name p)) found = Some exact
      \<longrightarrow> getOrCreateKnowledgeBase W p s =
            (Inr (exact, False), emit (SearchKnowledgeBases (kp_name p)) s))
   \<and> (\<forall>found.
      searchKnowledgeBases W (trace s) (kp_name p) = Inr found
      \<and> find (sameName (kp_name p)) found = None
      \<longrightarrow> getOrCreateKnowledgeBase W p s =
            (case postCreateKnowledge W (trace s @ [SearchKnowledgeBases (kp_name p)]) (kp_name p)
                    (kp_description p) (if kp_makePublic p then AcNull else AcObject []) of
               Inl e \<Rightarrow> Inl e
             | Inr new \<Rightarrow> Inr (new, True),
             emit (CreateKnowledgeBase (kp_name p) (kp_description p)
                    (if kp_makePublic p then AcNull else AcObject []))
               (emit (SearchKnowledgeBases (kp_name p)) s)))
   \<and> (\<forall>e. searchKnowledgeBases W (trace s) (kp_name p) = Inl e
      \<longrightarrow> getOrCreateKnowledgeBase W p s = (Inl e, emit (SearchKnowledgeBases (kp_name p)) s))
   \<and> (\<forall>found exact. find (sameName n) found = Some exact
      \<longrightarrow> sameName n exact
          \<and> (\<exists>before after. found = before @ exact # after
                \<and> list_all (\<lambda>kb. \<not> sameName n kb) before))
   \<and> sameName n kb = (toLowerCase (trim (kb_name kb)) = toLowerCase (trim n))
   \<and> (storeWorld init W
       \<and> fst (ingestToOpenWebUITool P W args1 s0) = Inr out1
       \<and> fst (ingestToOpenWebUITool P W args2 (snd (ingestToOpenWebUITool P W args1 s0))) = Inr out2
       \<and> parseIngestArgs args1 = Inr in1 \<and> parseIngestArgs args2 = Inr in2
       \<and> knowledgeBaseName in2 = knowledgeBaseName in1
       \<and> list_all (\<lambda>kb. \<not> sameName (knowledgeBaseName in1) kb) (storeKbs init (trace s0))
      \<longrightarrow> created (knowledge_base out1) \<and> \<not> created (knowledge_base out2)
          \<and> info_id (knowledge_base out2) = info_id (knowledge_base out1))"
  using getOrCreate_found[of W s p] getOrCreate_missing[of W s p] getOrCreate_search_fails[of W s p]
    find_Some_split[of "sameName n"] ingest_twice[of init W P args1 s0 out1 args2 out2 in1 in2]
  by (simp add: sameName_def)

lemma demo_first:
  "fst (ingestToOpenWebUITool demoPlatform demoWorld (demoArgs [''W1''] 10) emptyState) = Inr (demoReport True)"
  by (simp add: tool_defs step_defs world_defs eval_facts demoReport_def)

lemma demo_second:
  "fst (ingestToOpenWebUITool demoPlatform demoWorld (demoArgs [''W1''] 10)
     (snd (ingestToOpenWebUITool demoPlatform demoWorld (demoArgs [''W1''] 10) emptyState))) =
   Inr (demoReport False)"
  by (simp add: tool_defs step_defs world_defs eval_facts demoReport_def)

theorem getOrCreateKnowledgeBase_spec_witness:
  "storeWorld [] demoWorld
   \<and> fst (ingestToOpenWebUITool demoPlatform demoWorld (demoArgs [''W1''] 10) emptyState) =
       Inr (demoReport True)
   \<and> fst (ingestToOpenWebUITool demoPlatform demoWorld (demoArgs [''W1''] 10)
       (snd (ingestToOpenWebUITool demoPlatform demoWorld (demoArgs [''W1''] 10) emptyState))) =
       Inr (demoReport False)
   \<and> created (knowledge_base (demoReport True))
   \<and> \<not> created (knowledge_base (demoReport False))
   \<and> info_id (knowledge_base (demoReport False)) = info_id (knowledge_base (demoReport True))"
proof -
  have sw: "storeWorld [] demoWorld"
    by (simp add: storeWorld_def demoWorld_def)
  have pa: "parseIngestArgs (demoArgs [''W1''] 10) =
      Inr \<lparr>candidateIds = [''W1''], queryText = None, knowledgeBaseName = ''Public OA Scholar KB'',
           knowledgeBaseDescription = ''OA-first literature corpus. Non-OA papers are stored as abstract-only notes.'',
           makePublic = True, maxPapers = nat 10, fileProcessTimeoutSec = 900,
           openwebuiBaseUrl = None, openwebuiApiKey = None\<rparr>"
    by (simp add: parse_demo)
  have em: "list_all (\<lambda>kb. \<not> sameName ''Public OA Scholar KB'' kb) (storeKbs [] (trace emptyState))"
    by (simp add: emptyState_def)
  let ?input = "\<lparr>candidateIds = [''W1''], queryText = None, knowledgeBaseName = ''Public OA Scholar KB'',
           knowledgeBaseDescription = ''OA-first literature corpus. Non-OA papers are stored as abstract-only notes.'',
           makePublic = True, maxPapers = nat 10, fileProcessTimeoutSec = 900,
           openwebuiBaseUrl = None, openwebuiApiKey = None\<rparr>"
  from getOrCreateKnowledgeBase_spec[of demoWorld _ _ _ _ "[]" demoPlatform "demoArgs [''W1''] 10"
      emptyState "demoReport True" "demoArgs [''W1''] 10" "demoReport False" ?input ?input]
    sw demo_first demo_second pa em
  have "created (knowledge_base (demoReport True)) \<and> \<not> created (knowledge_base (demoReport False))
     \<and> info_id (knowledge_base (demoReport False)) = info_id (knowledge_base (demoReport True))"
    by simp
  then show ?thesis using sw demo_first demo_second by blast
qed
lemma old_name:
  "includesStr (toLowerCase ''public oa scholar kb'') (toLowerCase ''Public OA Scholar KB'')"
  by code_simp

lemma old_same: "sameName ''Public OA Scholar KB'' oldKb"
  unfolding sameName_def oldKb_def by code_simp

lemma demo_used:
  "fst (ingestToOpenWebUITool demoPlatform usedWorld (demoArgs [''W1''] 10) emptyState) = Inr usedReport"
proof -
  have f: "find (sameName ''Public OA Scholar KB'') [oldKb] = Some oldKb"
    using old_same by simp
  have k: "kb_id oldKb = ''kb-old''" "kb_name oldKb = ''public oa scholar kb''"
    "kb_access_control oldKb = AcObject []"
    by (simp_all add: oldKb_def)
  show ?thesis
    by (simp add: tool_defs step_defs world_defs usedWorld_def eval_facts usedReport_def old_name
        old_same f k)
qed

text \<open>
  C7, as stated, fails where the store holds a base of that name before the first call:
  the first of the successive calls then reports created = false.
\<close>

theorem getOrCreateKnowledgeBase_counterexample:
  "storeWorld [oldKb] usedWorld
   \<and> sameName ''Public OA Scholar KB'' oldKb
   \<and> fst (ingestToOpenWebUITool demoPlatform usedWorld (demoArgs [''W1''] 10) emptyState) = Inr usedReport
   \<and> \<not> created (knowledge_base usedReport)"
  using demo_used old_same by (simp add: storeWorld_def usedWorld_def usedReport_def)

end
